theory Spec2Isabelle
  imports Main "HOL-Library.Word"
begin

section \<open>Data model of the TCG event log parser (log.go)\<close>

type_synonym byte = "8 word"
type_synonym PCRIndex = "32 word"
type_synonym EventType = "32 word"
type_synonym AlgorithmId = "16 word"
type_synonym Digest = "byte list"
type_synonym DigestMap = "AlgorithmId \<rightharpoonup> Digest"

text \<open>
  \<^verbatim>\<open>type Format uint\<close>. Modelled from the spec: the constant declarations of the two
  formats are not part of the sources; the spec names a legacy and a crypto-agile
  encoding, which the code calls \<^verbatim>\<open>Format1_2\<close> and \<^verbatim>\<open>Format2\<close>.
\<close>

datatype Format = Format1_2 | Format2

text \<open>
  Modelled from the spec: the declarations of the algorithm identifiers and of the event
  types are not part of the sources. The values are those of the TCG specifications the
  source cites; the development only relies on their being pairwise distinct, which Go
  enforces for the keys of the map literal \<^verbatim>\<open>knownAlgorithms\<close> and for the cases of a
  \<^verbatim>\<open>switch\<close>.
\<close>

definition AlgorithmSha1 :: AlgorithmId where "AlgorithmSha1 = 0x0004"
definition AlgorithmSha256 :: AlgorithmId where "AlgorithmSha256 = 0x000b"
definition AlgorithmSha384 :: AlgorithmId where "AlgorithmSha384 = 0x000c"
definition AlgorithmSha512 :: AlgorithmId where "AlgorithmSha512 = 0x000d"

definition EventTypePostCode :: EventType where "EventTypePostCode = 0x00000001"
definition EventTypeNoAction :: EventType where "EventTypeNoAction = 0x00000003"
definition EventTypeSeparator :: EventType where "EventTypeSeparator = 0x00000004"
definition EventTypeEventTag :: EventType where "EventTypeEventTag = 0x00000006"

text \<open>
  The error values the decoder can return: the two sentinels of Go's \<^verbatim>\<open>io\<close> package and
  \<^verbatim>\<open>InvalidLogError\<close> with its message \<^verbatim>\<open>s\<close>.
\<close>

datatype error = EOF | ErrUnexpectedEOF | InvalidLogError string

text \<open>
  \<^verbatim>\<open>Event\<close>. log.go declares \<^verbatim>\<open>Data []byte\<close>, the validator reads \<^verbatim>\<open>Data\<close> as a decoded
  payload; the record is therefore polymorphic in the payload.
\<close>

record 'd Event =
  PCRIndex :: PCRIndex
  EventType :: EventType
  Digests :: DigestMap
  Data :: 'd

text \<open>\<^verbatim>\<open>knownAlgorithms\<close>: the digest catalog.\<close>

definition knownAlgorithms :: "AlgorithmId \<rightharpoonup> 16 word" where
  "knownAlgorithms =
     [AlgorithmSha1 \<mapsto> 20, AlgorithmSha256 \<mapsto> 32, AlgorithmSha384 \<mapsto> 48, AlgorithmSha512 \<mapsto> 64]"

text \<open>
  \<^verbatim>\<open>DigestLength\<close>, that is \<^verbatim>\<open>knownAlgorithms[alg]\<close>: indexing a Go map with a missing key
  gives the zero value.
\<close>

definition DigestLength :: "AlgorithmId \<Rightarrow> 16 word" where
  "DigestLength alg = (case knownAlgorithms alg of Some n \<Rightarrow> n | None \<Rightarrow> 0)"

section \<open>Byte order: \<^verbatim>\<open>nativeEndian_\<close>\<close>

text \<open>
  \<^verbatim>\<open>nativeEndian_\<close> reads and writes integers by reinterpreting the memory at \<^verbatim>\<open>&b[0]\<close>
  through \<^verbatim>\<open>unsafe.Pointer\<close>. What such an access yields is decided by the byte order of
  the executing machine, which is therefore a parameter of every operation below.
\<close>

datatype byte_order = LittleEndian | BigEndian

fun le_value :: "byte list \<Rightarrow> nat" where
  "le_value [] = 0"
| "le_value (b # bs) = unat b + 256 * le_value bs"

fun le_bytes :: "nat \<Rightarrow> nat \<Rightarrow> byte list" where
  "le_bytes 0 v = []"
| "le_bytes (Suc n) v = word_of_nat (v mod 256) # le_bytes n (v div 256)"

text \<open>The integer held by the memory cells \<open>bs\<close> (lowest address first) on the host.\<close>

definition load :: "byte_order \<Rightarrow> byte list \<Rightarrow> nat" where
  "load host bs = (case host of LittleEndian \<Rightarrow> le_value bs | BigEndian \<Rightarrow> le_value (rev bs))"

text \<open>The \<open>n\<close> memory cells the host writes for the integer \<open>v\<close>.\<close>

definition store :: "byte_order \<Rightarrow> nat \<Rightarrow> nat \<Rightarrow> byte list" where
  "store host n v = (case host of LittleEndian \<Rightarrow> le_bytes n v | BigEndian \<Rightarrow> rev (le_bytes n v))"

text \<open>
  The bounds checks \<^verbatim>\<open>_ = b[1]\<close> and \<^verbatim>\<open>_ = b[3]\<close> panic on a shorter slice; every caller in
  this development (\<^verbatim>\<open>binary.Read\<close>) passes a slice of exactly the size read.
\<close>

definition nativeEndian_Uint16 :: "byte_order \<Rightarrow> byte list \<Rightarrow> 16 word" where
  "nativeEndian_Uint16 host b = word_of_nat (load host (take 2 b))"

definition nativeEndian_Uint32 :: "byte_order \<Rightarrow> byte list \<Rightarrow> 32 word" where
  "nativeEndian_Uint32 host b = word_of_nat (load host (take 4 b))"

definition nativeEndian_PutUint32 :: "byte_order \<Rightarrow> 32 word \<Rightarrow> byte list" where
  "nativeEndian_PutUint32 host v = store host 4 (unat v)"

section \<open>The byte source\<close>

text \<open>
  \<^verbatim>\<open>io.ReadSeeker\<close>, as \<^verbatim>\<open>bytes.Reader\<close> implements it (\<^verbatim>\<open>NewLogFromByteReader\<close>): the
  underlying bytes and the current offset. The reader is shared by the caller and the
  decoder, so every operation returns the reader it leaves behind.
\<close>

record reader =
  rdata :: "byte list"
  rpos :: nat

definition remaining :: "reader \<Rightarrow> byte list" where
  "remaining r = drop (rpos r) (rdata r)"

text \<open>
  \<^verbatim>\<open>r.Read(buf)\<close> for a zero-initialised buffer of \<open>n\<close> bytes: at the end of the data
  it fails with \<^verbatim>\<open>io.EOF\<close>; otherwise it copies what is there, at most \<open>n\<close> bytes, and
  reports no error, also when fewer than \<open>n\<close> bytes were copied. The buffer is returned.
\<close>

definition Reader_Read :: "reader \<Rightarrow> nat \<Rightarrow> reader \<times> (error + byte list)" where
  "Reader_Read r n =
     (if length (rdata r) \<le> rpos r then (r, Inl EOF)
      else let got = take n (remaining r)
           in (r\<lparr>rpos := rpos r + length got\<rparr>, Inr (got @ replicate (n - length got) 0)))"

text \<open>
  \<^verbatim>\<open>io.ReadFull(r, buf)\<close> for a buffer of \<open>n\<close> bytes: calls \<^verbatim>\<open>Read\<close> until the buffer is
  full. An empty buffer is full at once; no byte at all is \<^verbatim>\<open>io.EOF\<close>; some bytes but
  fewer than \<open>n\<close> is \<^verbatim>\<open>io.ErrUnexpectedEOF\<close>, with the reader left at the end.
\<close>

definition io_ReadFull :: "reader \<Rightarrow> nat \<Rightarrow> reader \<times> (error + byte list)" where
  "io_ReadFull r n =
     (if n = 0 then (r, Inr [])
      else if length (rdata r) \<le> rpos r then (r, Inl EOF)
      else if length (remaining r) < n then (r\<lparr>rpos := length (rdata r)\<rparr>, Inl ErrUnexpectedEOF)
      else (r\<lparr>rpos := rpos r + n\<rparr>, Inr (take n (remaining r))))"

text \<open>
  \<^verbatim>\<open>binary.Read(r, nativeEndian, &x)\<close> for a 16-bit and a 32-bit \<open>x\<close>: \<^verbatim>\<open>io.ReadFull\<close> of the
  size of \<open>x\<close>, then the byte order's decoding of the buffer.
\<close>

definition binary_Read_uint16 :: "byte_order \<Rightarrow> reader \<Rightarrow> reader \<times> (error + 16 word)" where
  "binary_Read_uint16 host r =
     (case io_ReadFull r 2 of
        (r', Inl err) \<Rightarrow> (r', Inl err)
      | (r', Inr bs) \<Rightarrow> (r', Inr (nativeEndian_Uint16 host bs)))"

definition binary_Read_uint32 :: "byte_order \<Rightarrow> reader \<Rightarrow> reader \<times> (error + 32 word)" where
  "binary_Read_uint32 host r =
     (case io_ReadFull r 4 of
        (r', Inl err) \<Rightarrow> (r', Inl err)
      | (r', Inr bs) \<Rightarrow> (r', Inr (nativeEndian_Uint32 host bs)))"

section \<open>Formatting of error messages\<close>

definition hex_digit :: "nat \<Rightarrow> char" where
  "hex_digit n = ''0123456789abcdef'' ! (n mod 16)"

text \<open>\<^verbatim>\<open>%04x\<close> of a 16-bit value: four lower-case hexadecimal digits.\<close>

definition fmt_04x :: "16 word \<Rightarrow> string" where
  "fmt_04x w = (let n = unat w in
     [hex_digit (n div 4096), hex_digit (n div 256), hex_digit (n div 16), hex_digit n])"

text \<open>\<^verbatim>\<open>%d\<close> of an unsigned value.\<close>

fun fmt_d :: "nat \<Rightarrow> string" where
  "fmt_d n = (if n < 10 then [hex_digit n] else fmt_d (n div 10) @ [hex_digit (n mod 10)])"

declare fmt_d.simps [simp del]

definition quote :: string where
  "quote = [CHR 0x27]"

section \<open>The legacy decoder: \<^verbatim>\<open>stream_1_2\<close>\<close>

definition maxPCRIndex :: PCRIndex where
  "maxPCRIndex = 31"

text \<open>
  \<^verbatim>\<open>ReadNextEvent\<close> returns \<^verbatim>\<open>(*Event, bool, error)\<close>. Every return statement of the source
  is either \<^verbatim>\<open>nil, partial, err\<close> with an error or \<^verbatim>\<open>&Event{...}, false, nil\<close>: the result is
  \<open>Inl (err, partial)\<close> in the first case and \<open>Inr event\<close> in the second. It is paired
  with the reader as the call leaves it.
\<close>

type_synonym read_result = "(error \<times> bool) + (byte list) Event"

definition stream_1_2_ReadNextEvent :: "byte_order \<Rightarrow> reader \<Rightarrow> reader \<times> read_result" where
  "stream_1_2_ReadNextEvent host r =
     (case binary_Read_uint32 host r of
        (r1, Inl err) \<Rightarrow> (r1, Inl (err, False))
      | (r1, Inr pcrIndex) \<Rightarrow>
          if pcrIndex > maxPCRIndex then
            (r1, Inl (InvalidLogError
                        (''Invalid PCR index '' @ quote @ fmt_d (unat pcrIndex) @ quote), True))
          else
            (case binary_Read_uint32 host r1 of
               (r2, Inl err) \<Rightarrow> (r2, Inl (err, True))
             | (r2, Inr eventType) \<Rightarrow>
                 (case Reader_Read r2 (unat (DigestLength AlgorithmSha1)) of
                    (r3, Inl err) \<Rightarrow> (r3, Inl (err, True))
                  | (r3, Inr digest) \<Rightarrow>
                      (case binary_Read_uint32 host r3 of
                         (r4, Inl err) \<Rightarrow> (r4, Inl (err, True))
                       | (r4, Inr eventSize) \<Rightarrow>
                           (case io_ReadFull r4 (unat eventSize) of
                              (r5, Inl err) \<Rightarrow> (r5, Inl (err, True))
                            | (r5, Inr event) \<Rightarrow>
                                (r5, Inr \<lparr>PCRIndex = pcrIndex, EventType = eventType,
                                          Digests = [AlgorithmSha1 \<mapsto> digest],
                                          Data = event\<rparr>))))))"

section \<open>The crypto-agile decoder: \<^verbatim>\<open>stream_2\<close>\<close>

record algorithmSize =
  algorithmId :: AlgorithmId
  digestSize :: "16 word"

record stream_2 =
  algorithmSizes :: "algorithmSize list"
  readFirstEvent :: bool

text \<open>
  The inner loop \<^verbatim>\<open>for j = 0; j < len(s.algorithmSizes); j++\<close>: the digest size of the first
  entry with the identifier, \<open>None\<close> when \<open>j\<close> reaches the length.
\<close>

fun find_digestSize :: "algorithmSize list \<Rightarrow> AlgorithmId \<Rightarrow> 16 word option" where
  "find_digestSize [] alg = None"
| "find_digestSize (a # as) alg =
     (if algorithmId a = alg then Some (digestSize a) else find_digestSize as alg)"

text \<open>
  The loop \<^verbatim>\<open>for i := uint32(0); i < count; i++\<close> over the digest entries, by the number
  of iterations left. Every error leaves the function with the partial flag set.
\<close>

fun read_digests ::
  "byte_order \<Rightarrow> algorithmSize list \<Rightarrow> nat \<Rightarrow> reader \<Rightarrow> DigestMap \<Rightarrow> reader \<times> (error + DigestMap)"
where
  "read_digests host sizes 0 r digests = (r, Inr digests)"
| "read_digests host sizes (Suc n) r digests =
     (case binary_Read_uint16 host r of
        (r1, Inl err) \<Rightarrow> (r1, Inl err)
      | (r1, Inr alg) \<Rightarrow>
          (case find_digestSize sizes alg of
             None \<Rightarrow>
               (r1, Inl (InvalidLogError
                           (''Entry for algorithm '' @ quote @ fmt_04x alg @ quote @
                            '' not found in log header'')))
           | Some dsize \<Rightarrow>
               (case io_ReadFull r1 (unat dsize) of
                  (r2, Inl err) \<Rightarrow> (r2, Inl err)
                | (r2, Inr digest) \<Rightarrow>
                    read_digests host sizes n r2
                      (if knownAlgorithms alg \<noteq> None then digests(alg \<mapsto> digest) else digests))))"

definition stream_2_ReadNextEvent ::
  "byte_order \<Rightarrow> stream_2 \<Rightarrow> reader \<Rightarrow> stream_2 \<times> reader \<times> read_result"
where
  "stream_2_ReadNextEvent host s r =
     (if \<not> readFirstEvent s then
        (s\<lparr>readFirstEvent := True\<rparr>, stream_1_2_ReadNextEvent host r)
      else
        (case binary_Read_uint32 host r of
           (r1, Inl err) \<Rightarrow> (s, r1, Inl (err, False))
         | (r1, Inr pcrIndex) \<Rightarrow>
             if pcrIndex > maxPCRIndex then
               (s, r1, Inl (InvalidLogError
                              (''Invalid PCR index '' @ quote @ fmt_d (unat pcrIndex) @ quote), True))
             else
               (case binary_Read_uint32 host r1 of
                  (r2, Inl err) \<Rightarrow> (s, r2, Inl (err, True))
                | (r2, Inr eventType) \<Rightarrow>
                    (case binary_Read_uint32 host r2 of
                       (r3, Inl err) \<Rightarrow> (s, r3, Inl (err, True))
                     | (r3, Inr count) \<Rightarrow>
                         (case read_digests host (algorithmSizes s) (unat count) r3 Map.empty of
                            (r4, Inl err) \<Rightarrow> (s, r4, Inl (err, True))
                          | (r4, Inr digests) \<Rightarrow>
                              (case binary_Read_uint32 host r4 of
                                 (r5, Inl err) \<Rightarrow> (s, r5, Inl (err, True))
                               | (r5, Inr eventSize) \<Rightarrow>
                                   (case io_ReadFull r5 (unat eventSize) of
                                      (r6, Inl err) \<Rightarrow> (s, r6, Inl (err, True))
                                    | (r6, Inr event) \<Rightarrow>
                                        (s, r6, Inr \<lparr>PCRIndex = pcrIndex, EventType = eventType,
                                                    Digests = digests, Data = event\<rparr>))))))))"

section \<open>Format detection and the log handle\<close>

definition isZeroDigest :: "byte list \<Rightarrow> bool" where
  "isZeroDigest d = list_all (\<lambda>b. b = 0) d"

text \<open>The signature \<^verbatim>\<open>"Spec ID Event03\x00"\<close>.\<close>

definition signature :: "byte list" where
  "signature = [0x53, 0x70, 0x65, 0x63, 0x20, 0x49, 0x44, 0x20,
                0x45, 0x76, 0x65, 0x6e, 0x74, 0x30, 0x33, 0x00]"

text \<open>
  The loop of \<^verbatim>\<open>parseTCG2LogHeader\<close> over the header entries, by the number of entries
  left; \<open>None\<close> is the \<^verbatim>\<open>return nil\<close> of a failed read.
\<close>

fun read_algorithmSizes :: "byte_order \<Rightarrow> nat \<Rightarrow> reader \<Rightarrow> algorithmSize list option" where
  "read_algorithmSizes host 0 r = Some []"
| "read_algorithmSizes host (Suc n) r =
     (case binary_Read_uint16 host r of
        (r1, Inl err) \<Rightarrow> None
      | (r1, Inr alg) \<Rightarrow>
          (case binary_Read_uint16 host r1 of
             (r2, Inl err) \<Rightarrow> None
           | (r2, Inr dsize) \<Rightarrow>
               (case read_algorithmSizes host n r2 of
                  None \<Rightarrow> None
                | Some rest \<Rightarrow> Some (\<lparr>algorithmId = alg, digestSize = dsize\<rparr> # rest))))"

text \<open>
  \<^verbatim>\<open>parseTCG2LogHeader\<close>: \<open>None\<close> is the nil slice, \<open>Some []\<close> the empty slice that
  \<^verbatim>\<open>make\<close> returns for a header declaring no algorithm. A missing SHA-1 key reads as a nil
  digest, over which the zero test does not iterate.
\<close>

definition parseTCG2LogHeader :: "byte_order \<Rightarrow> (byte list) Event \<Rightarrow> algorithmSize list option" where
  "parseTCG2LogHeader host event =
     (if PCRIndex event \<noteq> 0 then None
      else if EventType event \<noteq> EventTypeNoAction then None
      else if \<not> isZeroDigest (case Digests event AlgorithmSha1 of Some d \<Rightarrow> d | None \<Rightarrow> []) then None
      else if length (Data event) < 29 then None
      else if take 16 (Data event) \<noteq> signature then None
      else
        (case binary_Read_uint32 host \<lparr>rdata = drop 24 (Data event), rpos = 0\<rparr> of
           (r1, Inl err) \<Rightarrow> None
         | (r1, Inr numAlgorithms) \<Rightarrow> read_algorithmSizes host (unat numAlgorithms) r1))"

text \<open>
  The \<^verbatim>\<open>stream\<close> interface with its two implementations. The reader they hold is the
  caller's, so it is passed to each call instead.
\<close>

datatype stream = Stream_1_2 | Stream_2 stream_2

record Log =
  Format :: Format
  Algorithms :: "AlgorithmId list"
  stream :: stream

fun stream_ReadNextEvent :: "byte_order \<Rightarrow> stream \<Rightarrow> reader \<Rightarrow> stream \<times> reader \<times> read_result" where
  "stream_ReadNextEvent host Stream_1_2 r = (Stream_1_2, stream_1_2_ReadNextEvent host r)"
| "stream_ReadNextEvent host (Stream_2 s) r =
     (case stream_2_ReadNextEvent host s r of (s', res) \<Rightarrow> (Stream_2 s', res))"

text \<open>
  The loop of \<^verbatim>\<open>newLogFromReader\<close> over the header entries: the recognised identifiers
  collected so far, or the error of the first recognised entry with another size than
  the catalog's.
\<close>

fun check_algSizes :: "algorithmSize list \<Rightarrow> AlgorithmId list \<Rightarrow> error + AlgorithmId list" where
  "check_algSizes [] algorithms = Inr algorithms"
| "check_algSizes (algSize # rest) algorithms =
     (case knownAlgorithms (algorithmId algSize) of
        Some knownSize \<Rightarrow>
          if knownSize \<noteq> digestSize algSize then
            Inl (InvalidLogError
                   (''Digest size in log header for algorithm '' @ quote @
                    fmt_04x (algorithmId algSize) @ quote @
                    '' doesn'' @ quote @ ''t match expected size (size: '' @
                    fmt_d (unat (digestSize algSize)) @ '', expected '' @
                    fmt_d (unat knownSize) @ '')''))
          else check_algSizes rest (algorithms @ [algorithmId algSize])
      | None \<Rightarrow> check_algSizes rest algorithms)"

text \<open>
  \<^verbatim>\<open>newLogFromReader\<close>. Both calls of \<^verbatim>\<open>Seek\<close> succeed on a \<^verbatim>\<open>bytes.Reader\<close>: the first
  returns the current offset, the second sets it.
\<close>

definition newLogFromReader :: "byte_order \<Rightarrow> reader \<Rightarrow> reader \<times> (error + Log)" where
  "newLogFromReader host r =
     (let start = rpos r in
      case stream_1_2_ReadNextEvent host r of
        (r1, Inl (err, partial)) \<Rightarrow> (r1, Inl (if err = EOF then ErrUnexpectedEOF else err))
      | (r1, Inr event) \<Rightarrow>
          (let r2 = r1\<lparr>rpos := start\<rparr> in
           case parseTCG2LogHeader host event of
             Some algSizes \<Rightarrow>
               (case check_algSizes algSizes [] of
                  Inl err \<Rightarrow> (r2, Inl err)
                | Inr algorithms \<Rightarrow>
                    (r2, Inr \<lparr>Format = Format2, Algorithms = algorithms,
                              stream = Stream_2 \<lparr>algorithmSizes = algSizes,
                                                 readFirstEvent = False\<rparr>\<rparr>))
           | None \<Rightarrow>
               (r2, Inr \<lparr>Format = Format1_2, Algorithms = [AlgorithmSha1],
                         stream = Stream_1_2\<rparr>)))"

definition HasAlgorithm :: "Log \<Rightarrow> AlgorithmId \<Rightarrow> bool" where
  "HasAlgorithm l alg = (alg \<in> set (Algorithms l))"

text \<open>\<^verbatim>\<open>Log.NextEvent\<close>: the event or the error, with the handle and the reader it leaves.\<close>

definition NextEvent :: "byte_order \<Rightarrow> Log \<Rightarrow> reader \<Rightarrow> Log \<times> reader \<times> (error + (byte list) Event)" where
  "NextEvent host l r =
     (case stream_ReadNextEvent host (stream l) r of
        (s', r', Inl (err, partial)) \<Rightarrow>
          (l\<lparr>stream := s'\<rparr>, r', Inl (if partial \<and> err = EOF then ErrUnexpectedEOF else err))
      | (s', r', Inr event) \<Rightarrow> (l\<lparr>stream := s'\<rparr>, r', Inr event))"

section \<open>The event validator: \<^verbatim>\<open>checkEvent\<close>\<close>

text \<open>
  Modelled from the spec: the \<^verbatim>\<open>EventData\<close> interface, \<^verbatim>\<open>SeparatorEventData\<close> and
  \<^verbatim>\<open>SeparatorEventTypeError\<close> are declared outside the sources. A payload either decoded
  as a separator record, normal or error-indicating, or it is some other payload; both
  keep the raw bytes that \<^verbatim>\<open>Bytes()\<close> returns.
\<close>

datatype SeparatorEventType = SeparatorEventTypeNormal | SeparatorEventTypeError

datatype EventData =
  SeparatorEventData SeparatorEventType "byte list"
| OtherEventData "byte list"

fun Bytes :: "EventData \<Rightarrow> byte list" where
  "Bytes (SeparatorEventData ty bs) = bs"
| "Bytes (OtherEventData bs) = bs"

datatype check_error =
  UnexpectedEventTypeError EventType PCRIndex
| UnexpectedDigestValueError EventType AlgorithmId Digest
| InvalidEventDataError EventType EventData

text \<open>
  A call either returns, here an error or \<open>None\<close> for \<^verbatim>\<open>nil\<close>, or panics.
\<close>

datatype 'a outcome = Return 'a | Panic string

text \<open>
  The hash functions of Go's \<^verbatim>\<open>crypto\<close> packages are parameters of the validator.
\<close>

record hashes =
  sha1_Sum :: "byte list \<Rightarrow> byte list"
  sha256_Sum256 :: "byte list \<Rightarrow> byte list"
  sha512_Sum384 :: "byte list \<Rightarrow> byte list"
  sha512_Sum512 :: "byte list \<Rightarrow> byte list"

definition hash :: "hashes \<Rightarrow> byte list \<Rightarrow> AlgorithmId \<Rightarrow> byte list outcome" where
  "hash H d alg =
     (if alg = AlgorithmSha1 then Return (sha1_Sum H d)
      else if alg = AlgorithmSha256 then Return (sha256_Sum256 H d)
      else if alg = AlgorithmSha384 then Return (sha512_Sum384 H d)
      else if alg = AlgorithmSha512 then Return (sha512_Sum512 H d)
      else Panic ''Unhandled algorithm'')"

text \<open>
  \<^verbatim>\<open>for alg, digest := range e.Digests\<close>: Go visits the keys of a map in an order it does
  not specify. The order of one run is the list \<open>ks\<close>; a key of \<open>ks\<close> that the map
  does not hold is not visited.
\<close>

fun range_NoAction :: "EventType \<Rightarrow> DigestMap \<Rightarrow> AlgorithmId list \<Rightarrow> check_error option" where
  "range_NoAction ty m [] = None"
| "range_NoAction ty m (alg # ks) =
     (case m alg of
        None \<Rightarrow> range_NoAction ty m ks
      | Some digest \<Rightarrow>
          if \<not> isZeroDigest digest then Some (UnexpectedDigestValueError ty alg digest)
          else range_NoAction ty m ks)"

fun range_Separator ::
  "hashes \<Rightarrow> EventType \<Rightarrow> byte list \<Rightarrow> DigestMap \<Rightarrow> AlgorithmId list \<Rightarrow> check_error option outcome"
where
  "range_Separator H ty d m [] = Return None"
| "range_Separator H ty d m (alg # ks) =
     (case m alg of
        None \<Rightarrow> range_Separator H ty d m ks
      | Some digest \<Rightarrow>
          (case hash H d alg of
             Panic msg \<Rightarrow> Panic msg
           | Return h \<Rightarrow>
               if digest \<noteq> h then Return (Some (UnexpectedDigestValueError ty alg digest))
               else range_Separator H ty d m ks))"

text \<open>
  \<^verbatim>\<open>checkEvent\<close>. For an error-indicating separator the four bytes hashed are the memory
  of a \<^verbatim>\<open>uint32(1)\<close> written through \<^verbatim>\<open>unsafe.Pointer\<close>, as \<^verbatim>\<open>nativeEndian_.PutUint32\<close> writes
  it.
\<close>

definition checkEvent ::
  "byte_order \<Rightarrow> hashes \<Rightarrow> AlgorithmId list \<Rightarrow> EventData Event \<Rightarrow> Format \<Rightarrow> check_error option outcome"
where
  "checkEvent host H ks e f =
     (if EventType e = EventTypePostCode then
        (if PCRIndex e \<noteq> 0 then Return (Some (UnexpectedEventTypeError (EventType e) (PCRIndex e)))
         else Return None)
      else if EventType e = EventTypeNoAction then
        (if PCRIndex e \<noteq> 0 \<and> PCRIndex e \<noteq> 6 then
           Return (Some (UnexpectedEventTypeError (EventType e) (PCRIndex e)))
         else Return (range_NoAction (EventType e) (Digests e) ks))
      else if EventType e = EventTypeSeparator then
        (if PCRIndex e > 7 then Return (Some (UnexpectedEventTypeError (EventType e) (PCRIndex e)))
         else
           (case Data e of
              SeparatorEventData se_Type bs \<Rightarrow>
                (let d = (if se_Type = SeparatorEventTypeError then nativeEndian_PutUint32 host 1
                          else Bytes (Data e))
                 in range_Separator H (EventType e) d (Digests e) ks)
            | OtherEventData bs \<Rightarrow> Return (Some (InvalidEventDataError (EventType e) (Data e)))))
      else if EventType e = EventTypeEventTag then
        (if PCRIndex e > 4 \<or> (PCRIndex e < 4 \<and> f = Format2) then
           Return (Some (UnexpectedEventTypeError (EventType e) (PCRIndex e)))
         else Return None)
      else Return None)"

section \<open>The wire layout of a crypto-agile record\<close>

text \<open>
  A digest entry on the wire is a pair \<open>(ab, d)\<close>: the two bytes \<open>ab\<close> of the
  algorithm identifier, then the digest bytes \<open>d\<close>. The entries of a record follow one
  another without padding.
\<close>

definition entries_bytes :: "(byte list \<times> byte list) list \<Rightarrow> byte list" where
  "entries_bytes es = concat (map (\<lambda>e. fst e @ snd e) es)"

text \<open>
  An entry is declared by the header when its identifier has an entry in the
  algorithm sizes of the stream and its digest has the length of that entry.
\<close>

definition declared :: "byte_order \<Rightarrow> algorithmSize list \<Rightarrow> byte list \<times> byte list \<Rightarrow> bool" where
  "declared host sizes e =
     (length (fst e) = 2 \<and>
      (case find_digestSize sizes (nativeEndian_Uint16 host (fst e)) of
         None \<Rightarrow> False
       | Some dsize \<Rightarrow> unat dsize = length (snd e)))"

text \<open>
  The reader stands at a record that starts with the fields \<open>pb\<close> (PCR index, within
  range), \<open>tb\<close> (event type), \<open>cb\<close> (digest count) and the declared entries \<open>es\<close>,
  followed by \<open>tail\<close>.
\<close>

definition at_record ::
  "byte_order \<Rightarrow> algorithmSize list \<Rightarrow> reader \<Rightarrow> byte list \<Rightarrow> byte list \<Rightarrow> byte list \<Rightarrow>
   (byte list \<times> byte list) list \<Rightarrow> byte list \<Rightarrow> bool"
where
  "at_record host sizes r pb tb cb es tail =
     (length pb = 4 \<and> length tb = 4 \<and> length cb = 4 \<and>
      nativeEndian_Uint32 host pb \<le> maxPCRIndex \<and>
      list_all (declared host sizes) es \<and>
      remaining r = pb @ tb @ cb @ entries_bytes es @ tail)"

text \<open>What the loop over the digest entries does to the digest map for one entry.\<close>

definition keep :: "byte_order \<Rightarrow> byte list \<times> byte list \<Rightarrow> DigestMap \<Rightarrow> DigestMap" where
  "keep host e m =
     (if knownAlgorithms (nativeEndian_Uint16 host (fst e)) \<noteq> None
      then m(nativeEndian_Uint16 host (fst e) \<mapsto> snd e) else m)"

text \<open>
  The entries of the algorithm descriptor in the payload of the header record, as the
  wire holds them: the 4-byte count at offset 24, then that many pairs of a 2-byte
  algorithm identifier and a 2-byte digest size, from offset 28 on.
\<close>

definition header_entries :: "byte_order \<Rightarrow> byte list \<Rightarrow> algorithmSize list" where
  "header_entries host data =
     map (\<lambda>i. \<lparr>algorithmId = nativeEndian_Uint16 host (take 2 (drop (28 + 4 * i) data)),
               digestSize = nativeEndian_Uint16 host (take 2 (drop (30 + 4 * i) data))\<rparr>)
       [0..<unat (nativeEndian_Uint32 host (take 4 (drop 24 data)))]"

section \<open>Properties of the byte source\<close>

lemma remaining_advance:
  "remaining (r\<lparr>rpos := rpos r + n\<rparr>) = drop n (remaining r)"
  by (simp add: remaining_def add.commute)

lemma length_remaining: "length (remaining r) = length (rdata r) - rpos r"
  by (simp add: remaining_def)

lemma io_ReadFull_ok:
  "n \<le> length (remaining r) \<Longrightarrow>
   io_ReadFull r n = (r\<lparr>rpos := rpos r + n\<rparr>, Inr (take n (remaining r)))"
  by (auto simp: io_ReadFull_def length_remaining)

lemma io_ReadFull_Inr:
  "io_ReadFull r n = (r', Inr bs) \<Longrightarrow>
   n \<le> length (remaining r) \<and> r' = r\<lparr>rpos := rpos r + n\<rparr> \<and> bs = take n (remaining r)"
  by (auto simp: io_ReadFull_def length_remaining split: if_splits)

lemma io_ReadFull_EOF:
  "io_ReadFull r n = (r', Inl EOF) \<longleftrightarrow> (n \<noteq> 0 \<and> length (rdata r) \<le> rpos r \<and> r' = r)"
  by (auto simp: io_ReadFull_def split: if_splits)

lemma io_ReadFull_Inl:
  "io_ReadFull r n = (r', Inl err) \<Longrightarrow> err = EOF \<or> err = ErrUnexpectedEOF"
  by (auto simp: io_ReadFull_def split: if_splits)

lemma binary_Read_uint32_ok:
  "4 \<le> length (remaining r) \<Longrightarrow>
   binary_Read_uint32 host r =
     (r\<lparr>rpos := rpos r + 4\<rparr>, Inr (nativeEndian_Uint32 host (take 4 (remaining r))))"
  by (simp add: binary_Read_uint32_def io_ReadFull_ok)

lemma binary_Read_uint32_EOF:
  "binary_Read_uint32 host r = (r', Inl EOF) \<longleftrightarrow> (length (rdata r) \<le> rpos r \<and> r' = r)"
  using io_ReadFull_EOF [of r 4 r']
  by (auto simp: binary_Read_uint32_def split: prod.splits sum.splits)

lemma binary_Read_uint16_ok:
  "2 \<le> length (remaining r) \<Longrightarrow>
   binary_Read_uint16 host r =
     (r\<lparr>rpos := rpos r + 2\<rparr>, Inr (nativeEndian_Uint16 host (take 2 (remaining r))))"
  by (simp add: binary_Read_uint16_def io_ReadFull_ok)

lemma stream_1_2_EOF:
  "stream_1_2_ReadNextEvent host r = (r', Inl (EOF, False)) \<longleftrightarrow>
     (length (rdata r) \<le> rpos r \<and> r' = r)"
proof
  assume "stream_1_2_ReadNextEvent host r = (r', Inl (EOF, False))"
  then have "binary_Read_uint32 host r = (r', Inl EOF)"
    by (auto simp: stream_1_2_ReadNextEvent_def split: prod.splits sum.splits if_splits)
  then show "length (rdata r) \<le> rpos r \<and> r' = r"
    by (simp add: binary_Read_uint32_EOF)
next
  assume "length (rdata r) \<le> rpos r \<and> r' = r"
  then have "binary_Read_uint32 host r = (r', Inl EOF)"
    by (simp add: binary_Read_uint32_EOF)
  then show "stream_1_2_ReadNextEvent host r = (r', Inl (EOF, False))"
    by (simp add: stream_1_2_ReadNextEvent_def)
qed

lemma stream_2_EOF:
  "stream_2_ReadNextEvent host s r = (s', r', Inl (EOF, False)) \<longleftrightarrow>
     (length (rdata r) \<le> rpos r \<and> r' = r \<and> s' = s\<lparr>readFirstEvent := True\<rparr>)"
proof (cases "readFirstEvent s")
  case False
  then show ?thesis
    by (auto simp: stream_2_ReadNextEvent_def stream_1_2_EOF)
next
  case True
  have "stream_2_ReadNextEvent host s r = (s', r', Inl (EOF, False)) \<longleftrightarrow>
        (binary_Read_uint32 host r = (r', Inl EOF) \<and> s' = s)"
    using True
    by (auto simp: stream_2_ReadNextEvent_def split: prod.splits sum.splits if_splits)
  then show ?thesis using True
    by (auto simp: binary_Read_uint32_EOF)
qed

section \<open>Properties of the decoders\<close>

lemma entries_bytes_Cons [simp]:
  "entries_bytes (e # es) = fst e @ snd e @ entries_bytes es"
  by (simp add: entries_bytes_def)

lemma entries_bytes_Nil [simp]: "entries_bytes [] = []"
  by (simp add: entries_bytes_def)

lemma entries_bytes_append [simp]:
  "entries_bytes (es @ fs) = entries_bytes es @ entries_bytes fs"
  by (simp add: entries_bytes_def)

lemma reader_rpos_same [simp]: "r\<lparr>rpos := rpos r\<rparr> = r"
  by (cases r) simp

lemma read_digests_step:
  assumes "declared host sizes e" and "remaining r = fst e @ snd e @ tail"
  shows "read_digests host sizes (Suc n) r m =
         read_digests host sizes n (r\<lparr>rpos := rpos r + (2 + length (snd e))\<rparr>) (keep host e m)"
proof -
  from assms(1) obtain dsize where
    ab: "length (fst e) = 2" and
    f: "find_digestSize sizes (nativeEndian_Uint16 host (fst e)) = Some dsize" and
    d: "unat dsize = length (snd e)"
    by (auto simp: declared_def split: option.splits)
  from assms(2) ab have take2: "take 2 (remaining r) = fst e" by simp
  from assms(2) ab have len2: "2 \<le> length (remaining r)" by simp
  have r16: "binary_Read_uint16 host r =
             (r\<lparr>rpos := rpos r + 2\<rparr>, Inr (nativeEndian_Uint16 host (fst e)))"
    using binary_Read_uint16_ok [OF len2, of host] take2 by simp
  let ?r1 = "r\<lparr>rpos := rpos r + 2\<rparr>"
  have rem1: "remaining ?r1 = snd e @ tail"
    using assms(2) ab remaining_advance [of r 2] by simp
  then have "length (snd e) \<le> length (remaining ?r1)" by simp
  from io_ReadFull_ok [OF this] rem1
  have rf: "io_ReadFull ?r1 (unat dsize) =
            (r\<lparr>rpos := rpos r + (2 + length (snd e))\<rparr>, Inr (snd e))"
    using d by (simp add: add.assoc)
  show ?thesis
    by (simp only: read_digests.simps r16 f rf keep_def prod.case sum.case option.case)
qed

lemma read_digests_entries:
  "list_all (declared host sizes) es \<Longrightarrow> remaining r = entries_bytes es @ tail \<Longrightarrow>
   read_digests host sizes (length es + k) r m =
   read_digests host sizes k (r\<lparr>rpos := rpos r + length (entries_bytes es)\<rparr>)
     (fold (keep host) es m)"
proof (induction es arbitrary: r m)
  case Nil
  then show ?case by simp
next
  case (Cons e es)
  from Cons.prems have d: "declared host sizes e" and ds: "list_all (declared host sizes) es"
    by simp_all
  from Cons.prems have rem: "remaining r = fst e @ snd e @ (entries_bytes es @ tail)" by simp
  from d have ab: "length (fst e) = 2" by (simp add: declared_def)
  let ?r' = "r\<lparr>rpos := rpos r + (2 + length (snd e))\<rparr>"
  have rem': "remaining ?r' = entries_bytes es @ tail"
    using rem ab remaining_advance [of r "2 + length (snd e)"] by simp
  have "read_digests host sizes (length (e # es) + k) r m =
        read_digests host sizes (length es + k) ?r' (keep host e m)"
    using read_digests_step [OF d rem] by simp
  also have "\<dots> = read_digests host sizes k (?r'\<lparr>rpos := rpos ?r' + length (entries_bytes es)\<rparr>)
                     (fold (keep host) es (keep host e m))"
    by (rule Cons.IH [OF ds rem'])
  finally show ?case using ab by (simp add: add.assoc)
qed

lemma read_digests_dom:
  "read_digests host sizes n r m = (r', Inr m') \<Longrightarrow> dom m' \<subseteq> dom m \<union> dom knownAlgorithms"
proof (induction n arbitrary: r m)
  case 0
  then show ?case by auto
next
  case (Suc n)
  then show ?case
    by (fastforce split: prod.splits sum.splits option.splits if_splits)
qed

lemma fold_keep_dom:
  "dom (fold (keep host) es m) = dom m \<union> {alg. knownAlgorithms alg \<noteq> None \<and> alg \<in> (\<lambda>e. nativeEndian_Uint16 host (fst e)) ` set es}"
  by (induction es arbitrary: m) (auto simp: keep_def split: if_splits)

lemma fold_keep_other:
  "\<forall>e\<in>set es. nativeEndian_Uint16 host (fst e) \<noteq> alg \<Longrightarrow> fold (keep host) es m alg = m alg"
  by (induction es arbitrary: m) (auto simp: keep_def)

lemma fold_keep_last:
  assumes "knownAlgorithms (nativeEndian_Uint16 host ab) \<noteq> None"
    and "\<forall>e\<in>set es2. nativeEndian_Uint16 host (fst e) \<noteq> nativeEndian_Uint16 host ab"
  shows "fold (keep host) (es1 @ (ab, d) # es2) m (nativeEndian_Uint16 host ab) = Some d"
  using assms by (simp add: fold_keep_other keep_def)

text \<open>A complete, well-formed record is decoded.\<close>

lemma stream_2_record:
  assumes first: "readFirstEvent s"
    and rec: "at_record host (algorithmSizes s) r pb tb cb es (sb @ data @ rest)"
    and cnt: "unat (nativeEndian_Uint32 host cb) = length es"
    and sb: "length sb = 4"
    and len: "unat (nativeEndian_Uint32 host sb) = length data"
  shows "stream_2_ReadNextEvent host s r =
           (s, r\<lparr>rpos := rpos r + (16 + length (entries_bytes es) + length data)\<rparr>,
            Inr \<lparr>PCRIndex = nativeEndian_Uint32 host pb, EventType = nativeEndian_Uint32 host tb,
                 Digests = fold (keep host) es Map.empty, Data = data\<rparr>)"
proof -
  from rec have pb: "length pb = 4" and tb: "length tb = 4" and cb: "length cb = 4"
    and pcr: "nativeEndian_Uint32 host pb \<le> maxPCRIndex"
    and decl: "list_all (declared host (algorithmSizes s)) es"
    and rem: "remaining r = pb @ tb @ cb @ entries_bytes es @ sb @ data @ rest"
    by (simp_all add: at_record_def)
  let ?r1 = "r\<lparr>rpos := rpos r + 4\<rparr>"
  let ?r2 = "r\<lparr>rpos := rpos r + 8\<rparr>"
  let ?r3 = "r\<lparr>rpos := rpos r + 12\<rparr>"
  let ?r4 = "r\<lparr>rpos := rpos r + (12 + length (entries_bytes es))\<rparr>"
  let ?r5 = "r\<lparr>rpos := rpos r + (16 + length (entries_bytes es))\<rparr>"
  let ?r6 = "r\<lparr>rpos := rpos r + (16 + length (entries_bytes es) + length data)\<rparr>"
  have rem1: "remaining ?r1 = tb @ cb @ entries_bytes es @ sb @ data @ rest"
    using rem pb remaining_advance [of r 4] by simp
  have rem2: "remaining ?r2 = cb @ entries_bytes es @ sb @ data @ rest"
    using rem pb tb remaining_advance [of r 8] by simp
  have rem3: "remaining ?r3 = entries_bytes es @ sb @ data @ rest"
    using rem pb tb cb remaining_advance [of r 12] by simp
  have rem4: "remaining ?r4 = sb @ data @ rest"
    using rem pb tb cb remaining_advance [of r "12 + length (entries_bytes es)"] by simp
  have rem5: "remaining ?r5 = data @ rest"
    using rem pb tb cb sb remaining_advance [of r "16 + length (entries_bytes es)"] by simp
  have a: "binary_Read_uint32 host r = (?r1, Inr (nativeEndian_Uint32 host pb))"
    using binary_Read_uint32_ok [of r host] rem pb by simp
  have b: "binary_Read_uint32 host ?r1 = (?r2, Inr (nativeEndian_Uint32 host tb))"
    using binary_Read_uint32_ok [of ?r1 host] rem1 tb by simp
  have c: "binary_Read_uint32 host ?r2 = (?r3, Inr (nativeEndian_Uint32 host cb))"
    using binary_Read_uint32_ok [of ?r2 host] rem2 cb by simp
  have d: "read_digests host (algorithmSizes s) (unat (nativeEndian_Uint32 host cb)) ?r3 Map.empty =
           (?r4, Inr (fold (keep host) es Map.empty))"
    using read_digests_entries [OF decl rem3, of 0 Map.empty] cnt by (simp add: add.assoc)
  have e: "binary_Read_uint32 host ?r4 = (?r5, Inr (nativeEndian_Uint32 host sb))"
    using binary_Read_uint32_ok [of ?r4 host] rem4 sb by (simp add: add.assoc)
  have f: "io_ReadFull ?r5 (unat (nativeEndian_Uint32 host sb)) = (?r6, Inr data)"
    using io_ReadFull_ok [of "length data" ?r5] rem5 len by (simp add: add.assoc)
  have g: "\<not> maxPCRIndex < nativeEndian_Uint32 host pb" using pcr by simp
  show ?thesis
    by (simp only: stream_2_ReadNextEvent_def first a b c d e f g
        prod.case sum.case if_True if_False not_True_eq_False not_False_eq_True)
qed

lemma dom_knownAlgorithms:
  "dom knownAlgorithms = {AlgorithmSha1, AlgorithmSha256, AlgorithmSha384, AlgorithmSha512}"
  by (auto simp: knownAlgorithms_def split: if_splits)

lemma find_digestSize_None:
  "find_digestSize sizes alg = None \<longleftrightarrow> alg \<notin> algorithmId ` set sizes"
  by (induction sizes) auto

lemma stream_2_dom:
  assumes "readFirstEvent s" and "stream_2_ReadNextEvent host s r = (s', r', Inr e)"
  shows "dom (Digests e) \<subseteq> dom knownAlgorithms"
proof -
  from assms obtain n r3 r4 where
    "read_digests host (algorithmSizes s) n r3 Map.empty = (r4, Inr (Digests e))"
    by (auto simp: stream_2_ReadNextEvent_def split: prod.splits sum.splits if_splits)
  from read_digests_dom [OF this] show ?thesis by simp
qed

lemma stream_2_missing:
  assumes first: "readFirstEvent s"
    and rec: "at_record host (algorithmSizes s) r pb tb cb es (ab @ rest)"
    and cnt: "length es < unat (nativeEndian_Uint32 host cb)"
    and ab: "length ab = 2"
    and miss: "find_digestSize (algorithmSizes s) (nativeEndian_Uint16 host ab) = None"
  shows "stream_2_ReadNextEvent host s r =
           (s, r\<lparr>rpos := rpos r + (14 + length (entries_bytes es))\<rparr>,
            Inl (InvalidLogError
                   (''Entry for algorithm '' @ quote @ fmt_04x (nativeEndian_Uint16 host ab) @
                    quote @ '' not found in log header''), True))"
proof -
  from rec have pb: "length pb = 4" and tb: "length tb = 4" and cb: "length cb = 4"
    and pcr: "nativeEndian_Uint32 host pb \<le> maxPCRIndex"
    and decl: "list_all (declared host (algorithmSizes s)) es"
    and rem: "remaining r = pb @ tb @ cb @ entries_bytes es @ ab @ rest"
    by (simp_all add: at_record_def)
  let ?r1 = "r\<lparr>rpos := rpos r + 4\<rparr>"
  let ?r2 = "r\<lparr>rpos := rpos r + 8\<rparr>"
  let ?r3 = "r\<lparr>rpos := rpos r + 12\<rparr>"
  let ?r4 = "r\<lparr>rpos := rpos r + (12 + length (entries_bytes es))\<rparr>"
  let ?r5 = "r\<lparr>rpos := rpos r + (14 + length (entries_bytes es))\<rparr>"
  let ?msg = "''Entry for algorithm '' @ quote @ fmt_04x (nativeEndian_Uint16 host ab) @
                    quote @ '' not found in log header''"
  have rem1: "remaining ?r1 = tb @ cb @ entries_bytes es @ ab @ rest"
    using rem pb remaining_advance [of r 4] by simp
  have rem2: "remaining ?r2 = cb @ entries_bytes es @ ab @ rest"
    using rem pb tb remaining_advance [of r 8] by simp
  have rem3: "remaining ?r3 = entries_bytes es @ ab @ rest"
    using rem pb tb cb remaining_advance [of r 12] by simp
  have rem4: "remaining ?r4 = ab @ rest"
    using rem pb tb cb remaining_advance [of r "12 + length (entries_bytes es)"] by simp
  have a: "binary_Read_uint32 host r = (?r1, Inr (nativeEndian_Uint32 host pb))"
    using binary_Read_uint32_ok [of r host] rem pb by simp
  have b: "binary_Read_uint32 host ?r1 = (?r2, Inr (nativeEndian_Uint32 host tb))"
    using binary_Read_uint32_ok [of ?r1 host] rem1 tb by simp
  have c: "binary_Read_uint32 host ?r2 = (?r3, Inr (nativeEndian_Uint32 host cb))"
    using binary_Read_uint32_ok [of ?r2 host] rem2 cb by simp
  from cnt obtain k where k: "unat (nativeEndian_Uint32 host cb) = length es + Suc k"
    using less_imp_Suc_add by (metis add_Suc_right)
  have h: "binary_Read_uint16 host ?r4 = (?r5, Inr (nativeEndian_Uint16 host ab))"
    using binary_Read_uint16_ok [of ?r4 host] rem4 ab by (simp add: add.assoc)
  have "read_digests host (algorithmSizes s) (Suc k) ?r4 (fold (keep host) es Map.empty) =
        (?r5, Inl (InvalidLogError ?msg))"
    by (simp only: read_digests.simps h miss prod.case sum.case option.case)
  then have d: "read_digests host (algorithmSizes s) (unat (nativeEndian_Uint32 host cb)) ?r3 Map.empty =
           (?r5, Inl (InvalidLogError ?msg))"
    using read_digests_entries [OF decl rem3, of "Suc k" Map.empty] k by (simp add: add.assoc)
  have g: "\<not> maxPCRIndex < nativeEndian_Uint32 host pb" using pcr by simp
  show ?thesis
    by (simp only: stream_2_ReadNextEvent_def first a b c d g
        prod.case sum.case if_True if_False not_True_eq_False not_False_eq_True)
qed

lemma le_bytes_4:
  "le_bytes 4 v = [word_of_nat (v mod 256), word_of_nat (v div 256 mod 256),
                   word_of_nat (v div 256 div 256 mod 256),
                   word_of_nat (v div 256 div 256 div 256 mod 256)]"
proof -
  have "(4 :: nat) = Suc (Suc (Suc (Suc 0)))" by simp
  then show ?thesis by (simp only: le_bytes.simps)
qed

lemma DigestLength_values:
  "DigestLength AlgorithmSha1 = 20" "DigestLength AlgorithmSha256 = 32"
  "DigestLength AlgorithmSha384 = 48" "DigestLength AlgorithmSha512 = 64"
  by (simp_all add: DigestLength_def knownAlgorithms_def AlgorithmSha1_def AlgorithmSha256_def
      AlgorithmSha384_def AlgorithmSha512_def)


lemma io_ReadFull_rdata: "io_ReadFull r n = (r', res) \<Longrightarrow> rdata r' = rdata r"
  by (auto simp: io_ReadFull_def split: if_splits)

lemma Reader_Read_rdata: "Reader_Read r n = (r', res) \<Longrightarrow> rdata r' = rdata r"
  by (auto simp: Reader_Read_def Let_def split: if_splits)

lemma binary_Read_uint32_rdata: "binary_Read_uint32 host r = (r', res) \<Longrightarrow> rdata r' = rdata r"
  by (auto simp: binary_Read_uint32_def split: prod.splits sum.splits dest: io_ReadFull_rdata)

lemma stream_1_2_rdata:
  assumes "stream_1_2_ReadNextEvent host r = (r', res)"
  shows "rdata r' = rdata r"
proof -
  obtain r1 x1 where a: "binary_Read_uint32 host r = (r1, x1)" by (cases "binary_Read_uint32 host r")
  obtain r2 x2 where b: "binary_Read_uint32 host r1 = (r2, x2)" by (cases "binary_Read_uint32 host r1")
  obtain r3 x3 where c: "Reader_Read r2 (unat (DigestLength AlgorithmSha1)) = (r3, x3)"
    by (cases "Reader_Read r2 (unat (DigestLength AlgorithmSha1))")
  obtain r4 x4 where d: "binary_Read_uint32 host r3 = (r4, x4)" by (cases "binary_Read_uint32 host r3")
  have e: "\<And>n r5 x5. io_ReadFull r4 n = (r5, x5) \<Longrightarrow> rdata r5 = rdata r4"
    by (rule io_ReadFull_rdata)
  note f = binary_Read_uint32_rdata [OF a] binary_Read_uint32_rdata [OF b]
    Reader_Read_rdata [OF c] binary_Read_uint32_rdata [OF d]
  show ?thesis
    using assms f e
    by (auto simp: stream_1_2_ReadNextEvent_def a b c d split: prod.splits sum.splits if_splits)
qed

lemma reader_restore: "rdata r' = rdata r \<Longrightarrow> r'\<lparr>rpos := rpos r\<rparr> = (r :: reader)"
  by (cases r, cases r') simp

lemma stream_1_2_Digests:
  "stream_1_2_ReadNextEvent host r = (r', Inr e) \<Longrightarrow>
   \<exists>d. Digests e = [AlgorithmSha1 \<mapsto> d] \<and> length d = 20"
  by (auto simp: stream_1_2_ReadNextEvent_def Reader_Read_def Let_def DigestLength_values
           split: prod.splits sum.splits if_splits)

text \<open>The size check of \<^verbatim>\<open>newLogFromReader\<close> over the header entries.\<close>

lemma check_algSizes_ok:
  "\<forall>a\<in>set as. \<forall>k. knownAlgorithms (algorithmId a) = Some k \<longrightarrow> k = digestSize a \<Longrightarrow>
   check_algSizes as acc =
     Inr (acc @ map algorithmId (filter (\<lambda>a. knownAlgorithms (algorithmId a) \<noteq> None) as))"
  by (induction as arbitrary: acc) (auto split: option.splits)

lemma check_algSizes_bad:
  "\<exists>a\<in>set as. \<exists>k. knownAlgorithms (algorithmId a) = Some k \<and> k \<noteq> digestSize a \<Longrightarrow>
   \<exists>a\<in>set as. \<exists>k. knownAlgorithms (algorithmId a) = Some k \<and> k \<noteq> digestSize a \<and>
     check_algSizes as acc =
       Inl (InvalidLogError
              (''Digest size in log header for algorithm '' @ quote @
               fmt_04x (algorithmId a) @ quote @
               '' doesn'' @ quote @ ''t match expected size (size: '' @
               fmt_d (unat (digestSize a)) @ '', expected '' @ fmt_d (unat k) @ '')''))"
proof (induction as arbitrary: acc)
  case Nil
  then show ?case by simp
next
  case (Cons a as)
  show ?case
  proof (cases "\<exists>k. knownAlgorithms (algorithmId a) = Some k \<and> k \<noteq> digestSize a")
    case True
    then show ?thesis by auto
  next
    case False
    with Cons.prems have
      "\<exists>a\<in>set as. \<exists>k. knownAlgorithms (algorithmId a) = Some k \<and> k \<noteq> digestSize a"
      by auto
    from Cons.IH [OF this] False show ?thesis
      by (cases "knownAlgorithms (algorithmId a)") auto
  qed
qed

lemma known_size:
  "knownAlgorithms alg = Some k \<longleftrightarrow>
   alg \<in> {AlgorithmSha1, AlgorithmSha256, AlgorithmSha384, AlgorithmSha512} \<and> k = DigestLength alg"
  using dom_knownAlgorithms by (auto simp: DigestLength_def split: option.splits)

lemma read_algorithmSizes_numeral:
  "read_algorithmSizes host (numeral k) r = read_algorithmSizes host (Suc (pred_numeral k)) r"
  by (simp add: numeral_eq_Suc)

lemma mismatch_iff:
  "(\<exists>a\<in>set algSizes.
      algorithmId a \<in> {AlgorithmSha1, AlgorithmSha256, AlgorithmSha384, AlgorithmSha512} \<and>
      digestSize a \<noteq> DigestLength (algorithmId a)) \<longleftrightarrow>
   (\<exists>a\<in>set algSizes. \<exists>k. knownAlgorithms (algorithmId a) = Some k \<and> k \<noteq> digestSize a)"
  by (metis known_size)

lemma match_iff:
  "(\<forall>a\<in>set algSizes.
      algorithmId a \<in> {AlgorithmSha1, AlgorithmSha256, AlgorithmSha384, AlgorithmSha512} \<longrightarrow>
      digestSize a = DigestLength (algorithmId a)) \<longleftrightarrow>
   (\<forall>a\<in>set algSizes. \<forall>k. knownAlgorithms (algorithmId a) = Some k \<longrightarrow> k = digestSize a)"
  by (metis known_size)

lemma known_iff:
  "knownAlgorithms alg \<noteq> None \<longleftrightarrow>
   alg \<in> {AlgorithmSha1, AlgorithmSha256, AlgorithmSha384, AlgorithmSha512}"
  using dom_knownAlgorithms by blast

lemma read_algorithmSizes_step:
  assumes "4 \<le> length (remaining r)"
  shows "read_algorithmSizes host (Suc n) r =
         (case read_algorithmSizes host n (r\<lparr>rpos := rpos r + 4\<rparr>) of
            None \<Rightarrow> None
          | Some rest \<Rightarrow>
              Some (\<lparr>algorithmId = nativeEndian_Uint16 host (take 2 (remaining r)),
                     digestSize = nativeEndian_Uint16 host (take 2 (drop 2 (remaining r)))\<rparr> # rest))"
proof -
  let ?r1 = "r\<lparr>rpos := rpos r + 2\<rparr>"
  from assms have "2 \<le> length (remaining r)" by simp
  from binary_Read_uint16_ok [OF this, of host]
  have a: "binary_Read_uint16 host r =
           (?r1, Inr (nativeEndian_Uint16 host (take 2 (remaining r))))" .
  have rem1: "remaining ?r1 = drop 2 (remaining r)" by (rule remaining_advance)
  with assms have "2 \<le> length (remaining ?r1)" by simp
  from binary_Read_uint16_ok [OF this, of host] rem1
  have b: "binary_Read_uint16 host ?r1 =
           (r\<lparr>rpos := rpos r + 4\<rparr>, Inr (nativeEndian_Uint16 host (take 2 (drop 2 (remaining r)))))"
    by (simp add: add.assoc)
  show ?thesis
    by (simp only: read_algorithmSizes.simps a b prod.case sum.case)
qed

lemma read_algorithmSizes_complete:
  "4 * n \<le> length (remaining r) \<Longrightarrow>
   read_algorithmSizes host n r =
     Some (map (\<lambda>i. \<lparr>algorithmId = nativeEndian_Uint16 host (take 2 (drop (4 * i) (remaining r))),
                     digestSize = nativeEndian_Uint16 host (take 2 (drop (2 + 4 * i) (remaining r)))\<rparr>)
             [0..<n])"
proof (induction n arbitrary: r)
  case 0
  then show ?case by simp
next
  case (Suc n)
  let ?r' = "r\<lparr>rpos := rpos r + 4\<rparr>"
  have rem: "remaining ?r' = drop 4 (remaining r)" by (rule remaining_advance)
  from Suc.prems have four: "4 \<le> length (remaining r)" by simp
  from Suc.prems rem have "4 * n \<le> length (remaining ?r')" by simp
  from Suc.IH [OF this]
  have ih: "read_algorithmSizes host n ?r' =
     Some (map (\<lambda>i. \<lparr>algorithmId = nativeEndian_Uint16 host (take 2 (drop (4 * Suc i) (remaining r))),
                     digestSize = nativeEndian_Uint16 host (take 2 (drop (2 + 4 * Suc i) (remaining r)))\<rparr>)
             [0..<n])"
    by (simp add: rem add.commute add.left_commute)
  have up: "[0..<Suc n] = 0 # map Suc [0..<n]"
    by (simp add: upt_conv_Cons map_Suc_upt del: upt_Suc)
  show ?case
    unfolding read_algorithmSizes_step [OF four] ih up
    by (simp add: comp_def numeral_2_eq_2)
qed

lemma parseTCG2LogHeader_complete:
  assumes "PCRIndex event = 0"
    and "EventType event = EventTypeNoAction"
    and "\<forall>d. Digests event AlgorithmSha1 = Some d \<longrightarrow> isZeroDigest d"
    and "take 16 (Data event) = signature"
    and "29 \<le> length (Data event)"
    and "28 + 4 * unat (nativeEndian_Uint32 host (take 4 (drop 24 (Data event)))) \<le> length (Data event)"
  shows "parseTCG2LogHeader host event = Some (header_entries host (Data event))"
proof -
  let ?r0 = "\<lparr>rdata = drop 24 (Data event), rpos = 0\<rparr>"
  let ?r1 = "\<lparr>rdata = drop 24 (Data event), rpos = 4\<rparr>"
  let ?n = "unat (nativeEndian_Uint32 host (take 4 (drop 24 (Data event))))"
  have z: "isZeroDigest (case Digests event AlgorithmSha1 of Some d \<Rightarrow> d | None \<Rightarrow> [])"
    using assms(3) by (cases "Digests event AlgorithmSha1") (simp_all add: isZeroDigest_def)
  have rem0: "remaining ?r0 = drop 24 (Data event)" by (simp add: remaining_def)
  with assms(5) have "4 \<le> length (remaining ?r0)" by simp
  from binary_Read_uint32_ok [OF this, of host]
  have a: "binary_Read_uint32 host ?r0 =
           (?r1, Inr (nativeEndian_Uint32 host (take 4 (drop 24 (Data event)))))"
    by (simp add: rem0)
  have rem1: "remaining ?r1 = drop 28 (Data event)" by (simp add: remaining_def)
  with assms(6) have "4 * ?n \<le> length (remaining ?r1)" by simp
  from read_algorithmSizes_complete [OF this, of host]
  have b: "read_algorithmSizes host ?n ?r1 = Some (header_entries host (Data event))"
    by (simp add: rem1 header_entries_def add.commute add.left_commute)
  from assms(5) have len: "\<not> length (Data event) < 29" by simp
  show ?thesis
    by (simp only: parseTCG2LogHeader_def assms(1,2,4) z len a b
        prod.case sum.case if_False simp_thms)
qed

lemma newLogFromReader_header:
  assumes "stream_1_2_ReadNextEvent host r = (r1, Inr event)"
    and "parseTCG2LogHeader host event = Some algSizes"
  shows "newLogFromReader host r =
           (r, case check_algSizes algSizes [] of
                 Inl err \<Rightarrow> Inl err
               | Inr algorithms \<Rightarrow>
                   Inr \<lparr>Format = Format2, Algorithms = algorithms,
                        stream = Stream_2 \<lparr>algorithmSizes = algSizes, readFirstEvent = False\<rparr>\<rparr>)"
  using assms reader_restore [OF stream_1_2_rdata [OF assms(1)]]
  by (simp add: newLogFromReader_def Let_def split: sum.splits)

lemma newLogFromReader_legacy:
  assumes "stream_1_2_ReadNextEvent host r = (r1, Inr event)"
    and "parseTCG2LogHeader host event = None"
  shows "newLogFromReader host r =
           (r, Inr \<lparr>Format = Format1_2, Algorithms = [AlgorithmSha1], stream = Stream_1_2\<rparr>)"
  using assms reader_restore [OF stream_1_2_rdata [OF assms(1)]]
  by (simp add: newLogFromReader_def Let_def)

lemma signature_string:
  "signature = map (\<lambda>c. word_of_nat (of_char c)) ''Spec ID Event03'' @ [0]"
  by (simp add: signature_def)

lemma parse_shape:
  assumes "PCRIndex event \<noteq> 0 \<or> EventType event \<noteq> EventTypeNoAction \<or>
           (\<exists>d. Digests event AlgorithmSha1 = Some d \<and> \<not> isZeroDigest d) \<or>
           take 16 (Data event) \<noteq> signature"
  shows "parseTCG2LogHeader host event = None"
  using assms by (auto simp: parseTCG2LogHeader_def)

lemma NextEvent_first:
  assumes "stream_1_2_ReadNextEvent host r = (r1, Inr event)"
    and "stream l = Stream_1_2 \<or> (\<exists>s. stream l = Stream_2 s \<and> \<not> readFirstEvent s)"
  shows "NextEvent host l r =
           (l\<lparr>stream := (case stream l of Stream_1_2 \<Rightarrow> Stream_1_2
                            | Stream_2 s \<Rightarrow> Stream_2 (s\<lparr>readFirstEvent := True\<rparr>))\<rparr>,
            r1, Inr event)"
  using assms by (auto simp: NextEvent_def stream_2_ReadNextEvent_def)

lemma stream_1_2_pcr:
  "stream_1_2_ReadNextEvent host r = (r', Inr e) \<Longrightarrow> PCRIndex e \<le> maxPCRIndex"
  by (auto simp: stream_1_2_ReadNextEvent_def split: prod.splits sum.splits if_splits)

lemma stream_2_pcr:
  "stream_2_ReadNextEvent host s r = (s', r', Inr e) \<Longrightarrow> PCRIndex e \<le> maxPCRIndex"
  by (auto simp: stream_2_ReadNextEvent_def stream_1_2_pcr split: prod.splits sum.splits if_splits)

text \<open>
  C6. \<^verbatim>\<open>Log.NextEvent\<close> returns the plain \<^verbatim>\<open>io.EOF\<close> only when the source had ended before
  any byte of a new record, in which case nothing is consumed; at the end of the source
  it does return \<^verbatim>\<open>io.EOF\<close>; and whenever the decoder fails with its partial flag set, an
  \<^verbatim>\<open>io.EOF\<close> is returned as \<^verbatim>\<open>io.ErrUnexpectedEOF\<close> and any other error as it is.
\<close>

theorem NextEvent_end_of_log:
  "(\<forall>l' r'. NextEvent host l r = (l', r', Inl EOF) \<longrightarrow> length (rdata r) \<le> rpos r \<and> r' = r) \<and>
   (length (rdata r) \<le> rpos r \<longrightarrow> (\<exists>l'. NextEvent host l r = (l', r, Inl EOF))) \<and>
   (\<forall>s' r' err. stream_ReadNextEvent host (stream l) r = (s', r', Inl (err, True)) \<longrightarrow>
      NextEvent host l r =
        (l\<lparr>stream := s'\<rparr>, r', Inl (if err = EOF then ErrUnexpectedEOF else err)))"
proof -
  have A: "stream_ReadNextEvent host st r = (s', r', Inl (EOF, False)) \<Longrightarrow>
           length (rdata r) \<le> rpos r \<and> r' = r" for st s' r'
    by (cases st) (auto simp: stream_1_2_EOF stream_2_EOF split: prod.splits)
  have B: "length (rdata r) \<le> rpos r \<Longrightarrow> \<exists>s'. stream_ReadNextEvent host st r = (s', r, Inl (EOF, False))" for st
  proof (cases st)
    case Stream_1_2
    assume "length (rdata r) \<le> rpos r"
    then show ?thesis using Stream_1_2 stream_1_2_EOF [of host r r] by simp
  next
    case (Stream_2 s)
    assume "length (rdata r) \<le> rpos r"
    then show ?thesis using Stream_2 stream_2_EOF [of host s r "s\<lparr>readFirstEvent := True\<rparr>" r] by simp
  qed
  have 1: "\<forall>l' r'. NextEvent host l r = (l', r', Inl EOF) \<longrightarrow> length (rdata r) \<le> rpos r \<and> r' = r"
    using A [of "stream l"]
    by (auto simp: NextEvent_def split: prod.splits sum.splits if_splits)
  have 2: "length (rdata r) \<le> rpos r \<longrightarrow> (\<exists>l'. NextEvent host l r = (l', r, Inl EOF))"
    using B [of "stream l"] by (auto simp: NextEvent_def)
  have 3: "\<forall>s' r' err. stream_ReadNextEvent host (stream l) r = (s', r', Inl (err, True)) \<longrightarrow>
      NextEvent host l r =
        (l\<lparr>stream := s'\<rparr>, r', Inl (if err = EOF then ErrUnexpectedEOF else err))"
    by (simp add: NextEvent_def)
  from 1 2 3 show ?thesis by blast
qed

theorem NextEvent_end_of_log_witness:
  "NextEvent LittleEndian \<lparr>Format = Format1_2, Algorithms = [AlgorithmSha1], stream = Stream_1_2\<rparr>
     \<lparr>rdata = [1, 0, 0, 0], rpos = 4\<rparr> =
     (\<lparr>Format = Format1_2, Algorithms = [AlgorithmSha1], stream = Stream_1_2\<rparr>,
      \<lparr>rdata = [1, 0, 0, 0], rpos = 4\<rparr>, Inl EOF) \<and>
   stream_ReadNextEvent LittleEndian Stream_1_2 \<lparr>rdata = [1, 0, 0, 0], rpos = 0\<rparr> =
     (Stream_1_2, \<lparr>rdata = [1, 0, 0, 0], rpos = 4\<rparr>, Inl (EOF, True)) \<and>
   NextEvent LittleEndian \<lparr>Format = Format1_2, Algorithms = [AlgorithmSha1], stream = Stream_1_2\<rparr>
     \<lparr>rdata = [1, 0, 0, 0], rpos = 0\<rparr> =
     (\<lparr>Format = Format1_2, Algorithms = [AlgorithmSha1], stream = Stream_1_2\<rparr>,
      \<lparr>rdata = [1, 0, 0, 0], rpos = 4\<rparr>, Inl ErrUnexpectedEOF)"
proof -
  let ?l = "\<lparr>Format = Format1_2, Algorithms = [AlgorithmSha1], stream = Stream_1_2\<rparr>"
  have s: "stream_ReadNextEvent LittleEndian Stream_1_2 \<lparr>rdata = [1, 0, 0, 0], rpos = 0\<rparr> =
     (Stream_1_2, \<lparr>rdata = [1, 0, 0, 0], rpos = 4\<rparr>, Inl (EOF, True))"
    by (simp add: stream_1_2_ReadNextEvent_def binary_Read_uint32_def io_ReadFull_def
        remaining_def nativeEndian_Uint32_def load_def maxPCRIndex_def)
  have e: "\<exists>l'. NextEvent LittleEndian ?l \<lparr>rdata = [1, 0, 0, 0], rpos = 4\<rparr> =
             (l', \<lparr>rdata = [1, 0, 0, 0], rpos = 4\<rparr>, Inl EOF)"
    using NextEvent_end_of_log [of LittleEndian ?l "\<lparr>rdata = [1, 0, 0, 0], rpos = 4\<rparr>"]
    by simp
  have p: "NextEvent LittleEndian ?l \<lparr>rdata = [1, 0, 0, 0], rpos = 0\<rparr> =
     (?l, \<lparr>rdata = [1, 0, 0, 0], rpos = 4\<rparr>, Inl ErrUnexpectedEOF)"
    using NextEvent_end_of_log [of LittleEndian ?l "\<lparr>rdata = [1, 0, 0, 0], rpos = 0\<rparr>"] s
    by simp
  from e have "NextEvent LittleEndian ?l \<lparr>rdata = [1, 0, 0, 0], rpos = 4\<rparr> =
     (?l, \<lparr>rdata = [1, 0, 0, 0], rpos = 4\<rparr>, Inl EOF)"
    by (auto simp: NextEvent_def split: prod.splits sum.splits)
  with s p show ?thesis by simp
qed

text \<open>
  C5. In either encoding, when the four bytes of the PCR index field decode to a value
  above 31, \<^verbatim>\<open>ReadNextEvent\<close> returns an \<^verbatim>\<open>InvalidLogError\<close> with the partial flag set and
  leaves the reader just behind those four bytes: no byte of the event type, of a digest
  or of the payload is consumed. Every event that is decoded has a PCR index of at
  most 31.
\<close>

theorem ReadNextEvent_PCRIndex:
  "(4 \<le> length (remaining r) \<and> nativeEndian_Uint32 host (take 4 (remaining r)) > 31 \<longrightarrow>
      stream_1_2_ReadNextEvent host r =
        (r\<lparr>rpos := rpos r + 4\<rparr>,
         Inl (InvalidLogError
                (''Invalid PCR index '' @ quote @
                 fmt_d (unat (nativeEndian_Uint32 host (take 4 (remaining r)))) @ quote), True)) \<and>
      stream_2_ReadNextEvent host s r =
        (s\<lparr>readFirstEvent := True\<rparr>, r\<lparr>rpos := rpos r + 4\<rparr>,
         Inl (InvalidLogError
                (''Invalid PCR index '' @ quote @
                 fmt_d (unat (nativeEndian_Uint32 host (take 4 (remaining r)))) @ quote), True))) \<and>
   (\<forall>r' e. stream_1_2_ReadNextEvent host r = (r', Inr e) \<longrightarrow> PCRIndex e \<le> 31) \<and>
   (\<forall>s' r' e. stream_2_ReadNextEvent host s r = (s', r', Inr e) \<longrightarrow> PCRIndex e \<le> 31)"
proof -
  have 1: "stream_1_2_ReadNextEvent host r =
        (r\<lparr>rpos := rpos r + 4\<rparr>,
         Inl (InvalidLogError
                (''Invalid PCR index '' @ quote @
                 fmt_d (unat (nativeEndian_Uint32 host (take 4 (remaining r)))) @ quote), True))"
    if "4 \<le> length (remaining r)" "nativeEndian_Uint32 host (take 4 (remaining r)) > 31"
    using that by (simp add: stream_1_2_ReadNextEvent_def binary_Read_uint32_ok maxPCRIndex_def)
  have 2: "stream_2_ReadNextEvent host s r =
        (s\<lparr>readFirstEvent := True\<rparr>, r\<lparr>rpos := rpos r + 4\<rparr>,
         Inl (InvalidLogError
                (''Invalid PCR index '' @ quote @
                 fmt_d (unat (nativeEndian_Uint32 host (take 4 (remaining r)))) @ quote), True))"
    if "4 \<le> length (remaining r)" "nativeEndian_Uint32 host (take 4 (remaining r)) > 31"
  proof (cases "readFirstEvent s")
    case False
    then show ?thesis using 1 that by (simp add: stream_2_ReadNextEvent_def)
  next
    case True
    then have "s\<lparr>readFirstEvent := True\<rparr> = s" by (cases s) simp
    then show ?thesis using True that
      by (simp add: stream_2_ReadNextEvent_def binary_Read_uint32_ok maxPCRIndex_def)
  qed
  have 3: "\<forall>r' e. stream_1_2_ReadNextEvent host r = (r', Inr e) \<longrightarrow> PCRIndex e \<le> 31"
    using stream_1_2_pcr [of host r] by (simp add: maxPCRIndex_def)
  have 4: "\<forall>s' r' e. stream_2_ReadNextEvent host s r = (s', r', Inr e) \<longrightarrow> PCRIndex e \<le> 31"
    using stream_2_pcr [of host s r] by (simp add: maxPCRIndex_def)
  from 1 2 3 4 show ?thesis by blast
qed

theorem ReadNextEvent_PCRIndex_witness:
  "stream_1_2_ReadNextEvent LittleEndian \<lparr>rdata = [32, 0, 0, 0, 4, 0, 0, 0, 7], rpos = 0\<rparr> =
     (\<lparr>rdata = [32, 0, 0, 0, 4, 0, 0, 0, 7], rpos = 4\<rparr>,
      Inl (InvalidLogError (''Invalid PCR index '' @ quote @ ''32'' @ quote), True)) \<and>
   stream_2_ReadNextEvent LittleEndian \<lparr>algorithmSizes = [], readFirstEvent = True\<rparr>
     \<lparr>rdata = [32, 0, 0, 0, 4, 0, 0, 0, 7], rpos = 0\<rparr> =
     (\<lparr>algorithmSizes = [], readFirstEvent = True\<rparr>,
      \<lparr>rdata = [32, 0, 0, 0, 4, 0, 0, 0, 7], rpos = 4\<rparr>,
      Inl (InvalidLogError (''Invalid PCR index '' @ quote @ ''32'' @ quote), True))"
  using ReadNextEvent_PCRIndex
          [of "\<lparr>rdata = [32, 0, 0, 0, 4, 0, 0, 0, 7], rpos = 0\<rparr>" LittleEndian
              "\<lparr>algorithmSizes = [], readFirstEvent = True\<rparr>"]
  by (simp add: remaining_def nativeEndian_Uint32_def load_def fmt_d.simps hex_digit_def)

lemmas eval_defs =
  at_record_def declared_def remaining_def nativeEndian_Uint32_def nativeEndian_Uint16_def
  load_def maxPCRIndex_def AlgorithmSha1_def AlgorithmSha256_def AlgorithmSha384_def
  AlgorithmSha512_def knownAlgorithms_def fmt_04x_def hex_digit_def

text \<open>
  C2. A crypto-agile record after the first, whose PCR index is in range and whose digest
  list holds, after any number of declared entries, an algorithm identifier with no
  entry in the algorithm sizes of the stream: \<^verbatim>\<open>ReadNextEvent\<close> returns no event but an
  \<^verbatim>\<open>InvalidLogError\<close> whose message holds the four hexadecimal digits of that
  identifier, with the partial flag set; the reader stands behind the identifier.
\<close>

theorem ReadNextEvent_undeclared_algorithm:
  assumes "readFirstEvent s"
    and "at_record host (algorithmSizes s) r pb tb cb es (ab @ rest)"
    and "length es < unat (nativeEndian_Uint32 host cb)"
    and "length ab = 2"
    and "nativeEndian_Uint16 host ab \<notin> algorithmId ` set (algorithmSizes s)"
  shows "stream_2_ReadNextEvent host s r =
           (s, r\<lparr>rpos := rpos r + (14 + length (entries_bytes es))\<rparr>,
            Inl (InvalidLogError
                   (''Entry for algorithm '' @ quote @ fmt_04x (nativeEndian_Uint16 host ab) @
                    quote @ '' not found in log header''), True))"
  using assms by (intro stream_2_missing) (simp_all add: find_digestSize_None)

theorem ReadNextEvent_undeclared_algorithm_witness:
  "stream_2_ReadNextEvent LittleEndian
     \<lparr>algorithmSizes = [\<lparr>algorithmId = AlgorithmSha1, digestSize = 20\<rparr>,
                        \<lparr>algorithmId = AlgorithmSha256, digestSize = 32\<rparr>],
      readFirstEvent = True\<rparr>
     \<lparr>rdata = [7, 0, 0, 0] @ [13, 0, 0, 0] @ [2, 0, 0, 0] @
              entries_bytes [([0x04, 0], [1, 2, 3, 4, 5, 6, 7, 8, 9, 10,
                                          11, 12, 13, 14, 15, 16, 17, 18, 19, 20])] @
              [0x0c, 0] @ [9, 9, 9], rpos = 0\<rparr> =
     (\<lparr>algorithmSizes = [\<lparr>algorithmId = AlgorithmSha1, digestSize = 20\<rparr>,
                         \<lparr>algorithmId = AlgorithmSha256, digestSize = 32\<rparr>],
       readFirstEvent = True\<rparr>,
      \<lparr>rdata = [7, 0, 0, 0] @ [13, 0, 0, 0] @ [2, 0, 0, 0] @
              entries_bytes [([0x04, 0], [1, 2, 3, 4, 5, 6, 7, 8, 9, 10,
                                          11, 12, 13, 14, 15, 16, 17, 18, 19, 20])] @
              [0x0c, 0] @ [9, 9, 9], rpos = 36\<rparr>,
      Inl (InvalidLogError
             (''Entry for algorithm '' @ quote @ ''000c'' @ quote @ '' not found in log header''),
           True))"
  using ReadNextEvent_undeclared_algorithm
          [of "\<lparr>algorithmSizes = [\<lparr>algorithmId = AlgorithmSha1, digestSize = 20\<rparr>,
                                  \<lparr>algorithmId = AlgorithmSha256, digestSize = 32\<rparr>],
                readFirstEvent = True\<rparr>"
              LittleEndian
              "\<lparr>rdata = [7, 0, 0, 0] @ [13, 0, 0, 0] @ [2, 0, 0, 0] @
                 entries_bytes [([0x04, 0], [1, 2, 3, 4, 5, 6, 7, 8, 9, 10,
                                             11, 12, 13, 14, 15, 16, 17, 18, 19, 20])] @
                 [0x0c, 0] @ [9, 9, 9], rpos = 0\<rparr>"
              "[7, 0, 0, 0]" "[13, 0, 0, 0]" "[2, 0, 0, 0]"
              "[([0x04, 0], [1, 2, 3, 4, 5, 6, 7, 8, 9, 10,
                             11, 12, 13, 14, 15, 16, 17, 18, 19, 20])]"
              "[0x0c, 0]" "[9, 9, 9]"]
  by (simp add: eval_defs)

text \<open>
  C7. For a crypto-agile record after the first, every declared digest entry is consumed
  with the digest size of its identifier in the algorithm sizes of the stream: the
  reader ends behind the whole record and the payload is read from the right place. The
  digest map of the event holds exactly the identifiers of the record that are in the
  catalog (SHA-1, SHA-256, SHA-384, SHA-512); entries of other declared identifiers are
  dropped without an error. No event of a record after the first holds a digest for an
  identifier outside the catalog.
\<close>

theorem ReadNextEvent_digests_catalog:
  "(\<forall>s' r' e. readFirstEvent s \<and> stream_2_ReadNextEvent host s r = (s', r', Inr e) \<longrightarrow>
      dom (Digests e) \<subseteq> {AlgorithmSha1, AlgorithmSha256, AlgorithmSha384, AlgorithmSha512}) \<and>
   (readFirstEvent s \<and> at_record host (algorithmSizes s) r pb tb cb es (sb @ data @ rest) \<and>
    unat (nativeEndian_Uint32 host cb) = length es \<and> length sb = 4 \<and>
    unat (nativeEndian_Uint32 host sb) = length data \<longrightarrow>
      (\<exists>e. stream_2_ReadNextEvent host s r =
              (s, r\<lparr>rpos := rpos r + (16 + length (entries_bytes es) + length data)\<rparr>, Inr e) \<and>
            Data e = data \<and>
            dom (Digests e) =
              (\<lambda>e. nativeEndian_Uint16 host (fst e)) ` set es \<inter>
              {AlgorithmSha1, AlgorithmSha256, AlgorithmSha384, AlgorithmSha512}))"
proof -
  have 1: "\<forall>s' r' e. readFirstEvent s \<and> stream_2_ReadNextEvent host s r = (s', r', Inr e) \<longrightarrow>
      dom (Digests e) \<subseteq> {AlgorithmSha1, AlgorithmSha256, AlgorithmSha384, AlgorithmSha512}"
    using stream_2_dom [of s host r] by (simp add: dom_knownAlgorithms)
  have 2: "\<exists>e. stream_2_ReadNextEvent host s r =
              (s, r\<lparr>rpos := rpos r + (16 + length (entries_bytes es) + length data)\<rparr>, Inr e) \<and>
            Data e = data \<and>
            dom (Digests e) =
              (\<lambda>e. nativeEndian_Uint16 host (fst e)) ` set es \<inter>
              {AlgorithmSha1, AlgorithmSha256, AlgorithmSha384, AlgorithmSha512}"
    if "readFirstEvent s" "at_record host (algorithmSizes s) r pb tb cb es (sb @ data @ rest)"
      "unat (nativeEndian_Uint32 host cb) = length es" "length sb = 4"
      "unat (nativeEndian_Uint32 host sb) = length data"
  proof -
    have "dom (fold (keep host) es Map.empty) =
          (\<lambda>e. nativeEndian_Uint16 host (fst e)) ` set es \<inter> dom knownAlgorithms"
      by (auto simp: fold_keep_dom)
    then show ?thesis
      using stream_2_record [OF that] by (simp add: dom_knownAlgorithms)
  qed
  from 1 2 show ?thesis by blast
qed

theorem ReadNextEvent_digests_catalog_witness:
  "\<exists>e. stream_2_ReadNextEvent LittleEndian
          \<lparr>algorithmSizes = [\<lparr>algorithmId = AlgorithmSha1, digestSize = 20\<rparr>,
                             \<lparr>algorithmId = 0x12, digestSize = 3\<rparr>],
           readFirstEvent = True\<rparr>
          \<lparr>rdata = [7, 0, 0, 0] @ [13, 0, 0, 0] @ [2, 0, 0, 0] @
                   entries_bytes [([0x12, 0], [0xaa, 0xbb, 0xcc]),
                                  ([0x04, 0], [1, 2, 3, 4, 5, 6, 7, 8, 9, 10,
                                               11, 12, 13, 14, 15, 16, 17, 18, 19, 20])] @
                   [2, 0, 0, 0] @ [0x68, 0x69] @ [9, 9, 9], rpos = 0\<rparr> =
          (\<lparr>algorithmSizes = [\<lparr>algorithmId = AlgorithmSha1, digestSize = 20\<rparr>,
                              \<lparr>algorithmId = 0x12, digestSize = 3\<rparr>],
            readFirstEvent = True\<rparr>,
           \<lparr>rdata = [7, 0, 0, 0] @ [13, 0, 0, 0] @ [2, 0, 0, 0] @
                   entries_bytes [([0x12, 0], [0xaa, 0xbb, 0xcc]),
                                  ([0x04, 0], [1, 2, 3, 4, 5, 6, 7, 8, 9, 10,
                                               11, 12, 13, 14, 15, 16, 17, 18, 19, 20])] @
                   [2, 0, 0, 0] @ [0x68, 0x69] @ [9, 9, 9], rpos = 45\<rparr>, Inr e) \<and>
        Data e = [0x68, 0x69] \<and> dom (Digests e) = {AlgorithmSha1}"
proof -
  let ?s = "\<lparr>algorithmSizes = [\<lparr>algorithmId = AlgorithmSha1, digestSize = 20\<rparr>,
                              \<lparr>algorithmId = 0x12, digestSize = 3\<rparr>],
            readFirstEvent = True\<rparr>"
  let ?es = "[([0x12, 0], [0xaa, 0xbb, 0xcc]),
              ([0x04, 0], [1, 2, 3, 4, 5, 6, 7, 8, 9, 10,
                           11, 12, 13, 14, 15, 16, 17, 18, 19, 20])] :: (byte list \<times> byte list) list"
  let ?r = "\<lparr>rdata = [7, 0, 0, 0] @ [13, 0, 0, 0] @ [2, 0, 0, 0] @ entries_bytes ?es @
                   [2, 0, 0, 0] @ [0x68, 0x69] @ [9, 9, 9], rpos = 0\<rparr>"
  have h: "readFirstEvent ?s \<and>
        at_record LittleEndian (algorithmSizes ?s) ?r [7, 0, 0, 0] [13, 0, 0, 0] [2, 0, 0, 0] ?es
          ([2, 0, 0, 0] @ [0x68, 0x69] @ [9, 9, 9]) \<and>
        unat (nativeEndian_Uint32 LittleEndian [2, 0, 0, 0]) = length ?es \<and>
        length [2 :: byte, 0, 0, 0] = 4 \<and>
        unat (nativeEndian_Uint32 LittleEndian [2, 0, 0, 0]) = length [0x68 :: byte, 0x69]"
    by (simp add: eval_defs)
  have i: "(\<lambda>e. nativeEndian_Uint16 LittleEndian (fst e)) ` set ?es \<inter>
              {AlgorithmSha1, AlgorithmSha256, AlgorithmSha384, AlgorithmSha512} = {AlgorithmSha1}"
    by (simp add: eval_defs)
  from ReadNextEvent_digests_catalog
         [of ?s LittleEndian ?r "[7, 0, 0, 0]" "[13, 0, 0, 0]" "[2, 0, 0, 0]" ?es
             "[2, 0, 0, 0]" "[0x68, 0x69]" "[9, 9, 9]"] h
  have "\<exists>e. stream_2_ReadNextEvent LittleEndian ?s ?r =
              (?s, ?r\<lparr>rpos := rpos ?r + (16 + length (entries_bytes ?es) + length [0x68 :: byte, 0x69])\<rparr>, Inr e) \<and>
            Data e = [0x68, 0x69] \<and>
            dom (Digests e) =
              (\<lambda>e. nativeEndian_Uint16 LittleEndian (fst e)) ` set ?es \<inter>
              {AlgorithmSha1, AlgorithmSha256, AlgorithmSha384, AlgorithmSha512}"
    by blast
  then show ?thesis unfolding i by simp
qed

text \<open>
  C10. A crypto-agile record after the first may declare the same catalog identifier more
  than once: decoding succeeds, the bytes of every occurrence are consumed, and the
  digest map binds the identifier to the digest of its last occurrence. (The map has
  one entry per identifier by its type.)
\<close>

theorem ReadNextEvent_repeated_algorithm:
  assumes "readFirstEvent s"
    and "at_record host (algorithmSizes s) r pb tb cb (es1 @ (ab, d) # es2) (sb @ data @ rest)"
    and "unat (nativeEndian_Uint32 host cb) = length (es1 @ (ab, d) # es2)"
    and "length sb = 4"
    and "unat (nativeEndian_Uint32 host sb) = length data"
    and "nativeEndian_Uint16 host ab \<in> {AlgorithmSha1, AlgorithmSha256, AlgorithmSha384, AlgorithmSha512}"
    and "\<forall>e\<in>set es2. nativeEndian_Uint16 host (fst e) \<noteq> nativeEndian_Uint16 host ab"
  shows "\<exists>e. stream_2_ReadNextEvent host s r =
               (s, r\<lparr>rpos := rpos r +
                       (16 + length (entries_bytes (es1 @ (ab, d) # es2)) + length data)\<rparr>, Inr e) \<and>
             Digests e (nativeEndian_Uint16 host ab) = Some d"
proof -
  from assms(6) have "knownAlgorithms (nativeEndian_Uint16 host ab) \<noteq> None"
    using dom_knownAlgorithms by blast
  from fold_keep_last [OF this assms(7), of es1 d Map.empty]
  show ?thesis
    using stream_2_record [OF assms(1-5)] by simp
qed

theorem ReadNextEvent_repeated_algorithm_witness:
  "\<exists>e. stream_2_ReadNextEvent LittleEndian
          \<lparr>algorithmSizes = [\<lparr>algorithmId = AlgorithmSha1, digestSize = 20\<rparr>],
           readFirstEvent = True\<rparr>
          \<lparr>rdata = [7, 0, 0, 0] @ [13, 0, 0, 0] @ [2, 0, 0, 0] @
                   entries_bytes [([0x04, 0], [1, 2, 3, 4, 5, 6, 7, 8, 9, 10,
                                               11, 12, 13, 14, 15, 16, 17, 18, 19, 20]),
                                  ([0x04, 0], [21, 22, 23, 24, 25, 26, 27, 28, 29, 30,
                                               31, 32, 33, 34, 35, 36, 37, 38, 39, 40])] @
                   [0, 0, 0, 0] @ [] @ [], rpos = 0\<rparr> =
          (\<lparr>algorithmSizes = [\<lparr>algorithmId = AlgorithmSha1, digestSize = 20\<rparr>],
            readFirstEvent = True\<rparr>,
           \<lparr>rdata = [7, 0, 0, 0] @ [13, 0, 0, 0] @ [2, 0, 0, 0] @
                   entries_bytes [([0x04, 0], [1, 2, 3, 4, 5, 6, 7, 8, 9, 10,
                                               11, 12, 13, 14, 15, 16, 17, 18, 19, 20]),
                                  ([0x04, 0], [21, 22, 23, 24, 25, 26, 27, 28, 29, 30,
                                               31, 32, 33, 34, 35, 36, 37, 38, 39, 40])] @
                   [0, 0, 0, 0] @ [] @ [], rpos = 60\<rparr>, Inr e) \<and>
        Digests e AlgorithmSha1 = Some [21, 22, 23, 24, 25, 26, 27, 28, 29, 30,
                                        31, 32, 33, 34, 35, 36, 37, 38, 39, 40]"
proof -
  let ?s = "\<lparr>algorithmSizes = [\<lparr>algorithmId = AlgorithmSha1, digestSize = 20\<rparr>],
            readFirstEvent = True\<rparr>"
  let ?d1 = "[1, 2, 3, 4, 5, 6, 7, 8, 9, 10, 11, 12, 13, 14, 15, 16, 17, 18, 19, 20] :: byte list"
  let ?d2 = "[21, 22, 23, 24, 25, 26, 27, 28, 29, 30,
              31, 32, 33, 34, 35, 36, 37, 38, 39, 40] :: byte list"
  let ?r = "\<lparr>rdata = [7, 0, 0, 0] @ [13, 0, 0, 0] @ [2, 0, 0, 0] @
                   entries_bytes [([0x04, 0], ?d1), ([0x04, 0], ?d2)] @
                   [0, 0, 0, 0] @ [] @ [], rpos = 0\<rparr>"
  have u: "nativeEndian_Uint16 LittleEndian [0x04, 0] = AlgorithmSha1"
    by (simp add: eval_defs)
  have "\<exists>e. stream_2_ReadNextEvent LittleEndian ?s ?r =
               (?s, ?r\<lparr>rpos := rpos ?r +
                       (16 + length (entries_bytes ([([0x04, 0], ?d1)] @ ([0x04, 0], ?d2) # [])) +
                        length ([] :: byte list))\<rparr>, Inr e) \<and>
             Digests e (nativeEndian_Uint16 LittleEndian [0x04, 0]) = Some ?d2"
    by (rule ReadNextEvent_repeated_algorithm
               [of ?s LittleEndian ?r "[7, 0, 0, 0]" "[13, 0, 0, 0]" "[2, 0, 0, 0]"
                   "[([0x04, 0], ?d1)]" "[0x04, 0]" ?d2 "[]" "[0, 0, 0, 0]" "[]" "[]"])
       (simp_all add: eval_defs)
  then show ?thesis unfolding u by simp
qed



text \<open>
  C3, as the code has it. The first record has the shape of the crypto-agile header (PCR
  index 0, type \<^verbatim>\<open>EV_NO_ACTION\<close>, all-zero SHA-1 digest, payload starting with the
  signature) and its payload, of at least 29 bytes, holds every entry that the count at
  offset 24 announces. Then \<^verbatim>\<open>newLogFromReader\<close> fails with an \<^verbatim>\<open>InvalidLogError\<close> and returns
  no log handle if some header entry for an algorithm of the catalog declares another
  digest size than the catalog's (20, 32, 48 and 64 bytes for SHA-1, SHA-256, SHA-384
  and SHA-512); the message names such an entry. If no entry of a catalog algorithm
  does, the log opens in the crypto-agile format with the entries of the header,
  whatever sizes the entries of other algorithms declare.
\<close>

theorem newLogFromReader_digest_size:
  assumes "stream_1_2_ReadNextEvent host r = (r1, Inr event)"
    and "PCRIndex event = 0"
    and "EventType event = EventTypeNoAction"
    and "\<forall>d. Digests event AlgorithmSha1 = Some d \<longrightarrow> isZeroDigest d"
    and "take 16 (Data event) = signature"
    and "29 \<le> length (Data event)"
    and "28 + 4 * unat (nativeEndian_Uint32 host (take 4 (drop 24 (Data event)))) \<le>
         length (Data event)"
  shows
    "((\<exists>a\<in>set (header_entries host (Data event)).
         algorithmId a \<in> {AlgorithmSha1, AlgorithmSha256, AlgorithmSha384, AlgorithmSha512} \<and>
         digestSize a \<noteq> DigestLength (algorithmId a)) \<longrightarrow>
      (\<exists>a\<in>set (header_entries host (Data event)).
         algorithmId a \<in> {AlgorithmSha1, AlgorithmSha256, AlgorithmSha384, AlgorithmSha512} \<and>
         digestSize a \<noteq> DigestLength (algorithmId a) \<and>
         newLogFromReader host r =
           (r, Inl (InvalidLogError
                      (''Digest size in log header for algorithm '' @ quote @
                       fmt_04x (algorithmId a) @ quote @
                       '' doesn'' @ quote @ ''t match expected size (size: '' @
                       fmt_d (unat (digestSize a)) @ '', expected '' @
                       fmt_d (unat (DigestLength (algorithmId a))) @ '')''))))) \<and>
     ((\<forall>a\<in>set (header_entries host (Data event)).
         algorithmId a \<in> {AlgorithmSha1, AlgorithmSha256, AlgorithmSha384, AlgorithmSha512} \<longrightarrow>
         digestSize a = DigestLength (algorithmId a)) \<longrightarrow>
      newLogFromReader host r =
        (r, Inr \<lparr>Format = Format2,
                 Algorithms =
                   map algorithmId
                     (filter (\<lambda>a. algorithmId a \<in>
                                {AlgorithmSha1, AlgorithmSha256, AlgorithmSha384, AlgorithmSha512})
                        (header_entries host (Data event))),
                 stream = Stream_2 \<lparr>algorithmSizes = header_entries host (Data event),
                                    readFirstEvent = False\<rparr>\<rparr>)) \<and>
     DigestLength AlgorithmSha1 = 20 \<and> DigestLength AlgorithmSha256 = 32 \<and>
     DigestLength AlgorithmSha384 = 48 \<and> DigestLength AlgorithmSha512 = 64"
proof -
  let ?cat = "{AlgorithmSha1, AlgorithmSha256, AlgorithmSha384, AlgorithmSha512}"
  let ?as = "header_entries host (Data event)"
  have hd: "parseTCG2LogHeader host event = Some ?as"
    by (rule parseTCG2LogHeader_complete [OF assms(2-7)])
  note open_eq = newLogFromReader_header [OF assms(1) hd]
  have bad: "\<exists>a\<in>set ?as. algorithmId a \<in> ?cat \<and> digestSize a \<noteq> DigestLength (algorithmId a) \<and>
         newLogFromReader host r =
           (r, Inl (InvalidLogError
                      (''Digest size in log header for algorithm '' @ quote @
                       fmt_04x (algorithmId a) @ quote @
                       '' doesn'' @ quote @ ''t match expected size (size: '' @
                       fmt_d (unat (digestSize a)) @ '', expected '' @
                       fmt_d (unat (DigestLength (algorithmId a))) @ '')'')))"
    if "\<exists>a\<in>set ?as. algorithmId a \<in> ?cat \<and> digestSize a \<noteq> DigestLength (algorithmId a)"
  proof -
    from that have
      "\<exists>a\<in>set ?as. \<exists>k. knownAlgorithms (algorithmId a) = Some k \<and> k \<noteq> digestSize a"
      by (simp only: mismatch_iff)
    from check_algSizes_bad [OF this, of "[]"] obtain a k where
      a: "a \<in> set ?as" and k: "knownAlgorithms (algorithmId a) = Some k" "k \<noteq> digestSize a"
      and c: "check_algSizes ?as [] =
       Inl (InvalidLogError
              (''Digest size in log header for algorithm '' @ quote @
               fmt_04x (algorithmId a) @ quote @
               '' doesn'' @ quote @ ''t match expected size (size: '' @
               fmt_d (unat (digestSize a)) @ '', expected '' @ fmt_d (unat k) @ '')''))"
      by blast
    from k(1) have k1: "algorithmId a \<in> ?cat"
      by (metis known_size)
    from k(1) have k2: "k = DigestLength (algorithmId a)"
      by (metis known_size)
    from k(2) k2 have k3: "digestSize a \<noteq> DigestLength (algorithmId a)" by simp
    have "newLogFromReader host r =
           (r, Inl (InvalidLogError
                      (''Digest size in log header for algorithm '' @ quote @
                       fmt_04x (algorithmId a) @ quote @
                       '' doesn'' @ quote @ ''t match expected size (size: '' @
                       fmt_d (unat (digestSize a)) @ '', expected '' @
                       fmt_d (unat (DigestLength (algorithmId a))) @ '')'')))"
      unfolding open_eq c k2 by simp
    with a k1 k3 show ?thesis by blast
  qed
  have good: "newLogFromReader host r =
        (r, Inr \<lparr>Format = Format2,
                 Algorithms = map algorithmId (filter (\<lambda>a. algorithmId a \<in> ?cat) ?as),
                 stream = Stream_2 \<lparr>algorithmSizes = ?as, readFirstEvent = False\<rparr>\<rparr>)"
    if "\<forall>a\<in>set ?as. algorithmId a \<in> ?cat \<longrightarrow> digestSize a = DigestLength (algorithmId a)"
  proof -
    from that have "\<forall>a\<in>set ?as. \<forall>k. knownAlgorithms (algorithmId a) = Some k \<longrightarrow> k = digestSize a"
      by (simp only: match_iff)
    from check_algSizes_ok [OF this, of "[]"]
    have "check_algSizes ?as [] =
            Inr (map algorithmId (filter (\<lambda>a. knownAlgorithms (algorithmId a) \<noteq> None) ?as))"
      by (simp only: append_Nil)
    then show ?thesis unfolding open_eq known_iff by simp
  qed
  from bad good DigestLength_values show ?thesis by blast
qed

lemmas decode_defs =
  stream_1_2_ReadNextEvent_def binary_Read_uint32_def binary_Read_uint16_def io_ReadFull_def
  Reader_Read_def DigestLength_values remaining_def nativeEndian_Uint32_def
  nativeEndian_Uint16_def load_def maxPCRIndex_def

theorem newLogFromReader_digest_size_witness:
  "newLogFromReader LittleEndian
     \<lparr>rdata = [0, 0, 0, 0, 3, 0, 0, 0,
               0, 0, 0, 0, 0, 0, 0, 0, 0, 0, 0, 0, 0, 0, 0, 0, 0, 0, 0, 0,
               33, 0, 0, 0,
               0x53, 0x70, 0x65, 0x63, 0x20, 0x49, 0x44, 0x20,
               0x45, 0x76, 0x65, 0x6e, 0x74, 0x30, 0x33, 0x00,
               0, 0, 0, 0, 0, 2, 0, 2, 1, 0, 0, 0, 0x0b, 0, 20, 0, 0], rpos = 0\<rparr> =
     (\<lparr>rdata = [0, 0, 0, 0, 3, 0, 0, 0,
                0, 0, 0, 0, 0, 0, 0, 0, 0, 0, 0, 0, 0, 0, 0, 0, 0, 0, 0, 0,
                33, 0, 0, 0,
                0x53, 0x70, 0x65, 0x63, 0x20, 0x49, 0x44, 0x20,
                0x45, 0x76, 0x65, 0x6e, 0x74, 0x30, 0x33, 0x00,
                0, 0, 0, 0, 0, 2, 0, 2, 1, 0, 0, 0, 0x0b, 0, 20, 0, 0], rpos = 0\<rparr>,
      Inl (InvalidLogError
             (''Digest size in log header for algorithm '' @ quote @ ''000b'' @ quote @
              '' doesn'' @ quote @ ''t match expected size (size: 20, expected 32)'')))"
proof -
  let ?data = "[0x53, 0x70, 0x65, 0x63, 0x20, 0x49, 0x44, 0x20,
                0x45, 0x76, 0x65, 0x6e, 0x74, 0x30, 0x33, 0x00,
                0, 0, 0, 0, 0, 2, 0, 2, 1, 0, 0, 0, 0x0b, 0, 20, 0, 0] :: byte list"
  let ?bytes = "[0, 0, 0, 0, 3, 0, 0, 0,
                 0, 0, 0, 0, 0, 0, 0, 0, 0, 0, 0, 0, 0, 0, 0, 0, 0, 0, 0, 0,
                 33, 0, 0, 0,
                 0x53, 0x70, 0x65, 0x63, 0x20, 0x49, 0x44, 0x20,
                 0x45, 0x76, 0x65, 0x6e, 0x74, 0x30, 0x33, 0x00,
                 0, 0, 0, 0, 0, 2, 0, 2, 1, 0, 0, 0, 0x0b, 0, 20, 0, 0] :: byte list"
  let ?event = "\<lparr>PCRIndex = 0, EventType = 3,
                 Digests = [AlgorithmSha1 \<mapsto>
                              [0, 0, 0, 0, 0, 0, 0, 0, 0, 0, 0, 0, 0, 0, 0, 0, 0, 0, 0, 0]],
                 Data = ?data\<rparr>"
  have rd: "stream_1_2_ReadNextEvent LittleEndian \<lparr>rdata = ?bytes, rpos = 0\<rparr> =
              (\<lparr>rdata = ?bytes, rpos = 65\<rparr>, Inr ?event)"
    by (simp add: decode_defs)
  have shape: "PCRIndex ?event = 0" "EventType ?event = EventTypeNoAction"
    "\<forall>d. Digests ?event AlgorithmSha1 = Some d \<longrightarrow> isZeroDigest d"
    "take 16 (Data ?event) = signature" "29 \<le> length (Data ?event)"
    "28 + 4 * unat (nativeEndian_Uint32 LittleEndian (take 4 (drop 24 (Data ?event)))) \<le>
     length (Data ?event)"
    by (simp_all add: EventTypeNoAction_def isZeroDigest_def signature_def
        nativeEndian_Uint32_def load_def)
  have hd: "header_entries LittleEndian (Data ?event) =
              [\<lparr>algorithmId = AlgorithmSha256, digestSize = 20\<rparr>]"
    by (simp add: header_entries_def nativeEndian_Uint32_def nativeEndian_Uint16_def load_def
        AlgorithmSha256_def)
  have f: "fmt_04x AlgorithmSha256 = ''000b''" "fmt_d (unat (20 :: 16 word)) = ''20''"
    "fmt_d (unat (32 :: 16 word)) = ''32''"
    by (simp_all add: fmt_04x_def hex_digit_def fmt_d.simps AlgorithmSha256_def)
  let ?cat = "{AlgorithmSha1, AlgorithmSha256, AlgorithmSha384, AlgorithmSha512}"
  let ?as = "[\<lparr>algorithmId = AlgorithmSha256, digestSize = 20\<rparr>]"
  have prem: "\<exists>a\<in>set (header_entries LittleEndian (Data ?event)).
                algorithmId a \<in> ?cat \<and> digestSize a \<noteq> DigestLength (algorithmId a)"
    unfolding hd by (simp add: DigestLength_values)
  from newLogFromReader_digest_size [OF rd shape] prem
  have "\<exists>a\<in>set (header_entries LittleEndian (Data ?event)).
         algorithmId a \<in> ?cat \<and> digestSize a \<noteq> DigestLength (algorithmId a) \<and>
         newLogFromReader LittleEndian \<lparr>rdata = ?bytes, rpos = 0\<rparr> =
           (\<lparr>rdata = ?bytes, rpos = 0\<rparr>,
            Inl (InvalidLogError
                      (''Digest size in log header for algorithm '' @ quote @
                       fmt_04x (algorithmId a) @ quote @
                       '' doesn'' @ quote @ ''t match expected size (size: '' @
                       fmt_d (unat (digestSize a)) @ '', expected '' @
                       fmt_d (unat (DigestLength (algorithmId a))) @ '')'')))"
    by blast
  then have "newLogFromReader LittleEndian \<lparr>rdata = ?bytes, rpos = 0\<rparr> =
           (\<lparr>rdata = ?bytes, rpos = 0\<rparr>,
            Inl (InvalidLogError
                      (''Digest size in log header for algorithm '' @ quote @
                       fmt_04x AlgorithmSha256 @ quote @
                       '' doesn'' @ quote @ ''t match expected size (size: '' @
                       fmt_d (unat (20 :: 16 word)) @ '', expected '' @
                       fmt_d (unat (32 :: 16 word)) @ '')'')))"
    unfolding hd by (simp add: DigestLength_values)
  then show ?thesis unfolding f by simp
qed

theorem newLogFromReader_digest_size_counterexample:
  "stream_1_2_ReadNextEvent LittleEndian
     \<lparr>rdata = [0, 0, 0, 0, 3, 0, 0, 0,
               0, 0, 0, 0, 0, 0, 0, 0, 0, 0, 0, 0, 0, 0, 0, 0, 0, 0, 0, 0,
               33, 0, 0, 0,
               0x53, 0x70, 0x65, 0x63, 0x20, 0x49, 0x44, 0x20,
               0x45, 0x76, 0x65, 0x6e, 0x74, 0x30, 0x33, 0x00,
               0, 0, 0, 0, 0, 2, 0, 2, 2, 0, 0, 0, 0x0b, 0, 20, 0, 0], rpos = 0\<rparr> =
     (\<lparr>rdata = [0, 0, 0, 0, 3, 0, 0, 0,
                0, 0, 0, 0, 0, 0, 0, 0, 0, 0, 0, 0, 0, 0, 0, 0, 0, 0, 0, 0,
                33, 0, 0, 0,
                0x53, 0x70, 0x65, 0x63, 0x20, 0x49, 0x44, 0x20,
                0x45, 0x76, 0x65, 0x6e, 0x74, 0x30, 0x33, 0x00,
                0, 0, 0, 0, 0, 2, 0, 2, 2, 0, 0, 0, 0x0b, 0, 20, 0, 0], rpos = 65\<rparr>,
      Inr \<lparr>PCRIndex = 0, EventType = EventTypeNoAction,
           Digests = [AlgorithmSha1 \<mapsto>
                        [0, 0, 0, 0, 0, 0, 0, 0, 0, 0, 0, 0, 0, 0, 0, 0, 0, 0, 0, 0]],
           Data = signature @ [0, 0, 0, 0, 0, 2, 0, 2, 2, 0, 0, 0, 0x0b, 0, 20, 0, 0]\<rparr>) \<and>
   newLogFromReader LittleEndian
     \<lparr>rdata = [0, 0, 0, 0, 3, 0, 0, 0,
               0, 0, 0, 0, 0, 0, 0, 0, 0, 0, 0, 0, 0, 0, 0, 0, 0, 0, 0, 0,
               33, 0, 0, 0,
               0x53, 0x70, 0x65, 0x63, 0x20, 0x49, 0x44, 0x20,
               0x45, 0x76, 0x65, 0x6e, 0x74, 0x30, 0x33, 0x00,
               0, 0, 0, 0, 0, 2, 0, 2, 2, 0, 0, 0, 0x0b, 0, 20, 0, 0], rpos = 0\<rparr> =
     (\<lparr>rdata = [0, 0, 0, 0, 3, 0, 0, 0,
                0, 0, 0, 0, 0, 0, 0, 0, 0, 0, 0, 0, 0, 0, 0, 0, 0, 0, 0, 0,
                33, 0, 0, 0,
                0x53, 0x70, 0x65, 0x63, 0x20, 0x49, 0x44, 0x20,
                0x45, 0x76, 0x65, 0x6e, 0x74, 0x30, 0x33, 0x00,
                0, 0, 0, 0, 0, 2, 0, 2, 2, 0, 0, 0, 0x0b, 0, 20, 0, 0], rpos = 0\<rparr>,
      Inr \<lparr>Format = Format1_2, Algorithms = [AlgorithmSha1], stream = Stream_1_2\<rparr>)"
proof -
  let ?bytes = "[0, 0, 0, 0, 3, 0, 0, 0,
                 0, 0, 0, 0, 0, 0, 0, 0, 0, 0, 0, 0, 0, 0, 0, 0, 0, 0, 0, 0,
                 33, 0, 0, 0,
                 0x53, 0x70, 0x65, 0x63, 0x20, 0x49, 0x44, 0x20,
                 0x45, 0x76, 0x65, 0x6e, 0x74, 0x30, 0x33, 0x00,
                 0, 0, 0, 0, 0, 2, 0, 2, 2, 0, 0, 0, 0x0b, 0, 20, 0, 0] :: byte list"
  let ?event = "\<lparr>PCRIndex = 0, EventType = EventTypeNoAction,
                 Digests = [AlgorithmSha1 \<mapsto>
                              [0, 0, 0, 0, 0, 0, 0, 0, 0, 0, 0, 0, 0, 0, 0, 0, 0, 0, 0, 0]],
                 Data = signature @ [0, 0, 0, 0, 0, 2, 0, 2, 2, 0, 0, 0, 0x0b, 0, 20, 0, 0]\<rparr>"
  have rd: "stream_1_2_ReadNextEvent LittleEndian \<lparr>rdata = ?bytes, rpos = 0\<rparr> =
              (\<lparr>rdata = ?bytes, rpos = 65\<rparr>, Inr ?event)"
    by (simp add: decode_defs EventTypeNoAction_def signature_def)
  have pn: "parseTCG2LogHeader LittleEndian ?event = None"
    by (simp add: parseTCG2LogHeader_def isZeroDigest_def signature_def
        binary_Read_uint32_def binary_Read_uint16_def io_ReadFull_def remaining_def
        nativeEndian_Uint32_def nativeEndian_Uint16_def load_def read_algorithmSizes_numeral)
  from rd newLogFromReader_legacy [OF rd pn] show ?thesis by simp
qed

text \<open>
  C4, as the code has it. Whenever the first record can be read, \<^verbatim>\<open>newLogFromReader\<close> leaves the reader exactly
  as it found it, at the original offset, whether it returns a legacy log, a crypto-agile
  log or the error of a digest size. If the first record does not have the shape of the
  crypto-agile header (PCR index 0, type \<^verbatim>\<open>EV_NO_ACTION\<close>, all-zero SHA-1 digest, payload
  starting with the 16 bytes of \<^verbatim>\<open>"Spec ID Event03\\0"\<close>), the log has the legacy format and
  the algorithms are SHA-1 alone. In both formats the first \<^verbatim>\<open>NextEvent\<close> of the opened log
  decodes the header record again, from the start and in the legacy layout: it returns
  the event of the detection read and leaves the reader where that read left it.
\<close>

theorem newLogFromReader_position:
  assumes "stream_1_2_ReadNextEvent host r = (r1, Inr event)"
  shows
    "fst (newLogFromReader host r) = r \<and>
     ((PCRIndex event \<noteq> 0 \<or> EventType event \<noteq> EventTypeNoAction \<or>
       (\<exists>d. Digests event AlgorithmSha1 = Some d \<and> \<not> isZeroDigest d) \<or>
       take 16 (Data event) \<noteq> signature) \<longrightarrow>
      newLogFromReader host r =
        (r, Inr \<lparr>Format = Format1_2, Algorithms = [AlgorithmSha1], stream = Stream_1_2\<rparr>)) \<and>
     (\<forall>l. snd (newLogFromReader host r) = Inr l \<longrightarrow>
        NextEvent host l r =
          (l\<lparr>stream := (case stream l of Stream_1_2 \<Rightarrow> Stream_1_2
                           | Stream_2 s \<Rightarrow> Stream_2 (s\<lparr>readFirstEvent := True\<rparr>))\<rparr>,
           r1, Inr event)) \<and>
     signature = map (\<lambda>c. word_of_nat (of_char c)) ''Spec ID Event03'' @ [0]"
proof -
  have 1: "fst (newLogFromReader host r) = r"
  proof (cases "parseTCG2LogHeader host event")
    case None
    from newLogFromReader_legacy [OF assms None] show ?thesis by simp
  next
    case (Some algSizes)
    from newLogFromReader_header [OF assms Some] show ?thesis by simp
  qed
  have 2: "newLogFromReader host r =
        (r, Inr \<lparr>Format = Format1_2, Algorithms = [AlgorithmSha1], stream = Stream_1_2\<rparr>)"
    if "PCRIndex event \<noteq> 0 \<or> EventType event \<noteq> EventTypeNoAction \<or>
       (\<exists>d. Digests event AlgorithmSha1 = Some d \<and> \<not> isZeroDigest d) \<or>
       take 16 (Data event) \<noteq> signature"
    using newLogFromReader_legacy [OF assms parse_shape [OF that]] .
  have 3: "NextEvent host l r =
          (l\<lparr>stream := (case stream l of Stream_1_2 \<Rightarrow> Stream_1_2
                           | Stream_2 s \<Rightarrow> Stream_2 (s\<lparr>readFirstEvent := True\<rparr>))\<rparr>,
           r1, Inr event)"
    if "snd (newLogFromReader host r) = Inr l" for l
  proof -
    have "stream l = Stream_1_2 \<or> (\<exists>s. stream l = Stream_2 s \<and> \<not> readFirstEvent s)"
    proof (cases "parseTCG2LogHeader host event")
      case None
      from newLogFromReader_legacy [OF assms None] that show ?thesis by auto
    next
      case (Some algSizes)
      from newLogFromReader_header [OF assms Some] that show ?thesis
        by (auto split: sum.splits)
    qed
    from NextEvent_first [OF assms this] show ?thesis .
  qed
  from 1 2 3 signature_string show ?thesis by blast
qed

theorem newLogFromReader_position_witness:
  "newLogFromReader LittleEndian
     \<lparr>rdata = [0, 0, 0, 0, 1, 0, 0, 0,
               1, 2, 3, 4, 5, 6, 7, 8, 9, 10, 11, 12, 13, 14, 15, 16, 17, 18, 19, 20,
               1, 0, 0, 0, 0x41, 0x42], rpos = 0\<rparr> =
     (\<lparr>rdata = [0, 0, 0, 0, 1, 0, 0, 0,
                1, 2, 3, 4, 5, 6, 7, 8, 9, 10, 11, 12, 13, 14, 15, 16, 17, 18, 19, 20,
                1, 0, 0, 0, 0x41, 0x42], rpos = 0\<rparr>,
      Inr \<lparr>Format = Format1_2, Algorithms = [AlgorithmSha1], stream = Stream_1_2\<rparr>) \<and>
   NextEvent LittleEndian \<lparr>Format = Format1_2, Algorithms = [AlgorithmSha1], stream = Stream_1_2\<rparr>
     \<lparr>rdata = [0, 0, 0, 0, 1, 0, 0, 0,
               1, 2, 3, 4, 5, 6, 7, 8, 9, 10, 11, 12, 13, 14, 15, 16, 17, 18, 19, 20,
               1, 0, 0, 0, 0x41, 0x42], rpos = 0\<rparr> =
     (\<lparr>Format = Format1_2, Algorithms = [AlgorithmSha1], stream = Stream_1_2\<rparr>,
      \<lparr>rdata = [0, 0, 0, 0, 1, 0, 0, 0,
                1, 2, 3, 4, 5, 6, 7, 8, 9, 10, 11, 12, 13, 14, 15, 16, 17, 18, 19, 20,
                1, 0, 0, 0, 0x41, 0x42], rpos = 33\<rparr>,
      Inr \<lparr>PCRIndex = 0, EventType = 1,
           Digests = [AlgorithmSha1 \<mapsto>
                        [1, 2, 3, 4, 5, 6, 7, 8, 9, 10, 11, 12, 13, 14, 15, 16, 17, 18, 19, 20]],
           Data = [0x41]\<rparr>)"
proof -
  let ?bytes = "[0, 0, 0, 0, 1, 0, 0, 0,
                 1, 2, 3, 4, 5, 6, 7, 8, 9, 10, 11, 12, 13, 14, 15, 16, 17, 18, 19, 20,
                 1, 0, 0, 0, 0x41, 0x42] :: byte list"
  let ?event = "\<lparr>PCRIndex = 0, EventType = 1,
                 Digests = [AlgorithmSha1 \<mapsto>
                        [1, 2, 3, 4, 5, 6, 7, 8, 9, 10, 11, 12, 13, 14, 15, 16, 17, 18, 19, 20]],
                 Data = [0x41 :: byte]\<rparr>"
  let ?log = "\<lparr>Format = Format1_2, Algorithms = [AlgorithmSha1], stream = Stream_1_2\<rparr>"
  have rd: "stream_1_2_ReadNextEvent LittleEndian \<lparr>rdata = ?bytes, rpos = 0\<rparr> =
              (\<lparr>rdata = ?bytes, rpos = 33\<rparr>, Inr ?event)"
    by (simp add: decode_defs)
  have shape: "EventType ?event \<noteq> EventTypeNoAction"
    by (simp add: EventTypeNoAction_def)
  note t = newLogFromReader_position [OF rd]
  from t shape have o: "newLogFromReader LittleEndian \<lparr>rdata = ?bytes, rpos = 0\<rparr> =
      (\<lparr>rdata = ?bytes, rpos = 0\<rparr>, Inr ?log)"
    by blast
  then have "snd (newLogFromReader LittleEndian \<lparr>rdata = ?bytes, rpos = 0\<rparr>) = Inr ?log"
    by simp
  with t have "NextEvent LittleEndian ?log \<lparr>rdata = ?bytes, rpos = 0\<rparr> =
          (?log\<lparr>stream := (case stream ?log of Stream_1_2 \<Rightarrow> Stream_1_2
                           | Stream_2 s \<Rightarrow> Stream_2 (s\<lparr>readFirstEvent := True\<rparr>))\<rparr>,
           \<lparr>rdata = ?bytes, rpos = 33\<rparr>, Inr ?event)"
    by blast
  with o show ?thesis by simp
qed

theorem newLogFromReader_position_counterexample:
  "newLogFromReader LittleEndian \<lparr>rdata = [1, 0, 0, 0], rpos = 0\<rparr> =
     (\<lparr>rdata = [1, 0, 0, 0], rpos = 4\<rparr>, Inl ErrUnexpectedEOF)"
  by (simp add: newLogFromReader_def decode_defs)

section \<open>Properties of the validator\<close>

lemmas EventType_defs =
  EventTypePostCode_def EventTypeNoAction_def EventTypeSeparator_def EventTypeEventTag_def

lemma hash_catalog:
  "alg \<in> {AlgorithmSha1, AlgorithmSha256, AlgorithmSha384, AlgorithmSha512} \<Longrightarrow>
   \<exists>h. hash H d alg = Return h"
  by (auto simp: hash_def)

lemma range_Separator_pass:
  "\<forall>alg\<in>set ks. \<forall>dg. m alg = Some dg \<longrightarrow> hash H d alg = Return dg \<Longrightarrow>
   range_Separator H ty d m ks = Return None"
  by (induction ks) (auto split: option.splits)

lemma range_Separator_fail:
  assumes "\<forall>alg\<in>set ks. m alg \<noteq> None \<longrightarrow> (\<exists>h. hash H d alg = Return h)"
    and "\<exists>alg\<in>set ks. \<exists>dg. m alg = Some dg \<and> hash H d alg \<noteq> Return dg"
  shows "\<exists>alg\<in>set ks. \<exists>dg. m alg = Some dg \<and> hash H d alg \<noteq> Return dg \<and>
           range_Separator H ty d m ks = Return (Some (UnexpectedDigestValueError ty alg dg))"
  using assms
proof (induction ks)
  case Nil
  then show ?case by simp
next
  case (Cons k ks)
  show ?case
  proof (cases "m k")
    case None
    with Cons.prems have
      "\<forall>alg\<in>set ks. m alg \<noteq> None \<longrightarrow> (\<exists>h. hash H d alg = Return h)"
      "\<exists>alg\<in>set ks. \<exists>dg. m alg = Some dg \<and> hash H d alg \<noteq> Return dg"
      by auto
    from Cons.IH [OF this] None show ?thesis by auto
  next
    case (Some dg)
    with Cons.prems(1) obtain h where h: "hash H d k = Return h" by auto
    show ?thesis
    proof (cases "dg = h")
      case False
      with Some h show ?thesis by auto
    next
      case True
      with Some h Cons.prems have
        "\<forall>alg\<in>set ks. m alg \<noteq> None \<longrightarrow> (\<exists>h. hash H d alg = Return h)"
        "\<exists>alg\<in>set ks. \<exists>dg. m alg = Some dg \<and> hash H d alg \<noteq> Return dg"
        by auto
      from Cons.IH [OF this] Some h True show ?thesis by auto
    qed
  qed
qed

text \<open>
  On a big-endian host an error-indicating separator whose SHA-1 digest is the hash of the
  bytes 01 00 00 00 is reported, for every hash function that tells these bytes from
  00 00 00 01.
\<close>

lemma checkEvent_Separator_BigEndian:
  assumes "sha1_Sum H [1, 0, 0, 0] \<noteq> sha1_Sum H [0, 0, 0, 1]"
  shows "checkEvent BigEndian H [AlgorithmSha1]
           \<lparr>PCRIndex = 0, EventType = EventTypeSeparator,
            Digests = [AlgorithmSha1 \<mapsto> sha1_Sum H [1, 0, 0, 0]],
            Data = SeparatorEventData SeparatorEventTypeError bs\<rparr> f =
         Return (Some (UnexpectedDigestValueError EventTypeSeparator AlgorithmSha1
                         (sha1_Sum H [1, 0, 0, 0])))"
  using assms
  by (simp add: checkEvent_def EventType_defs hash_def nativeEndian_PutUint32_def store_def
      le_bytes_4)

text \<open>
  C8, as the code has it. For a \<^verbatim>\<open>SEPARATOR\<close> event whose digests are all of catalog
  algorithms, visited in any order: \<^verbatim>\<open>checkEvent\<close> returns \<^verbatim>\<open>UnexpectedEventTypeError\<close> if
  the PCR index exceeds 7 and, failing that, \<^verbatim>\<open>InvalidEventDataError\<close> if the payload is not
  a separator record. Otherwise the bytes hashed are the payload for a normal separator
  and, for an error-indicating one, the four bytes of the 32-bit value 1 in the byte
  order of the executing machine (01 00 00 00 on a little-endian host, 00 00 00 01 on a
  big-endian one). If some bank's digest differs from that bank's hash of these bytes,
  the result is an \<^verbatim>\<open>UnexpectedDigestValueError\<close> that names such a bank and its digest; if
  every bank's digest equals it, the event passes.
\<close>

theorem checkEvent_Separator:
  assumes "EventType e = EventTypeSeparator"
    and "set ks = dom (Digests e)"
    and "dom (Digests e) \<subseteq> {AlgorithmSha1, AlgorithmSha256, AlgorithmSha384, AlgorithmSha512}"
  shows
    "(7 < PCRIndex e \<longrightarrow>
        checkEvent host H ks e f =
          Return (Some (UnexpectedEventTypeError EventTypeSeparator (PCRIndex e)))) \<and>
     (PCRIndex e \<le> 7 \<longrightarrow>
        (\<forall>bs. Data e = OtherEventData bs \<longrightarrow>
           checkEvent host H ks e f =
             Return (Some (InvalidEventDataError EventTypeSeparator (Data e)))) \<and>
        (\<forall>ty bs d. Data e = SeparatorEventData ty bs \<and>
           d = (if ty = SeparatorEventTypeError
                then (case host of LittleEndian \<Rightarrow> [1, 0, 0, 0] | BigEndian \<Rightarrow> [0, 0, 0, 1])
                else bs) \<longrightarrow>
           ((\<exists>alg dg. Digests e alg = Some dg \<and> hash H d alg \<noteq> Return dg) \<longrightarrow>
            (\<exists>alg dg. Digests e alg = Some dg \<and> hash H d alg \<noteq> Return dg \<and>
               checkEvent host H ks e f =
                 Return (Some (UnexpectedDigestValueError EventTypeSeparator alg dg)))) \<and>
           ((\<forall>alg dg. Digests e alg = Some dg \<longrightarrow> hash H d alg = Return dg) \<longrightarrow>
            checkEvent host H ks e f = Return None)))"
proof -
  have ty: "EventType e \<noteq> EventTypePostCode" "EventType e \<noteq> EventTypeNoAction"
    using assms(1) by (simp_all add: EventType_defs)
  have 1: "checkEvent host H ks e f =
          Return (Some (UnexpectedEventTypeError EventTypeSeparator (PCRIndex e)))"
    if "7 < PCRIndex e"
    using that ty assms(1) by (simp add: checkEvent_def)
  have 2: "checkEvent host H ks e f =
             Return (Some (InvalidEventDataError EventTypeSeparator (Data e)))"
    if "PCRIndex e \<le> 7" "Data e = OtherEventData bs" for bs
    using that ty assms(1) by (simp add: checkEvent_def)
  have put: "nativeEndian_PutUint32 host 1 =
     (case host of LittleEndian \<Rightarrow> [1, 0, 0, 0] | BigEndian \<Rightarrow> [0, 0, 0, 1])"
    by (cases host) (simp_all add: nativeEndian_PutUint32_def store_def le_bytes_4)
  have run: "checkEvent host H ks e f = range_Separator H EventTypeSeparator d (Digests e) ks"
    if "PCRIndex e \<le> 7" "Data e = SeparatorEventData ty bs"
      "d = (if ty = SeparatorEventTypeError
                then (case host of LittleEndian \<Rightarrow> [1, 0, 0, 0] | BigEndian \<Rightarrow> [0, 0, 0, 1])
                else bs)" for ty bs d
    using that ty assms(1) put by (auto simp: checkEvent_def)
  have cat: "\<forall>alg\<in>set ks. Digests e alg \<noteq> None \<longrightarrow> (\<exists>h. hash H d alg = Return h)" for d
    using assms(2,3) hash_catalog [of _ H d] by blast
  have 3: "\<exists>alg dg. Digests e alg = Some dg \<and> hash H d alg \<noteq> Return dg \<and>
               checkEvent host H ks e f =
                 Return (Some (UnexpectedDigestValueError EventTypeSeparator alg dg))"
    if "PCRIndex e \<le> 7" "Data e = SeparatorEventData ty bs"
      "d = (if ty = SeparatorEventTypeError
                then (case host of LittleEndian \<Rightarrow> [1, 0, 0, 0] | BigEndian \<Rightarrow> [0, 0, 0, 1])
                else bs)"
      "\<exists>alg dg. Digests e alg = Some dg \<and> hash H d alg \<noteq> Return dg" for ty bs d
  proof -
    from that(4) assms(2) have
      "\<exists>alg\<in>set ks. \<exists>dg. Digests e alg = Some dg \<and> hash H d alg \<noteq> Return dg"
      by auto
    from range_Separator_fail [OF cat this, of EventTypeSeparator]
    show ?thesis unfolding run [OF that(1-3)] by blast
  qed
  have 4: "checkEvent host H ks e f = Return None"
    if "PCRIndex e \<le> 7" "Data e = SeparatorEventData ty bs"
      "d = (if ty = SeparatorEventTypeError
                then (case host of LittleEndian \<Rightarrow> [1, 0, 0, 0] | BigEndian \<Rightarrow> [0, 0, 0, 1])
                else bs)"
      "\<forall>alg dg. Digests e alg = Some dg \<longrightarrow> hash H d alg = Return dg" for ty bs d
    unfolding run [OF that(1-3)]
    using that(4) by (intro range_Separator_pass) blast
  from 1 2 3 4 show ?thesis by blast
qed


theorem checkEvent_Separator_witness:
  "checkEvent LittleEndian
     \<lparr>sha1_Sum = (\<lambda>d. d), sha256_Sum256 = (\<lambda>d. d), sha512_Sum384 = (\<lambda>d. d),
      sha512_Sum512 = (\<lambda>d. d)\<rparr> [AlgorithmSha1]
     \<lparr>PCRIndex = 0, EventType = EventTypeSeparator, Digests = [AlgorithmSha1 \<mapsto> [1, 0, 0, 0]],
      Data = SeparatorEventData SeparatorEventTypeError [1, 0, 0, 0]\<rparr> Format2 = Return None"
proof -
  let ?H = "\<lparr>sha1_Sum = (\<lambda>d. d), sha256_Sum256 = (\<lambda>d. d), sha512_Sum384 = (\<lambda>d. d),
             sha512_Sum512 = (\<lambda>d. d)\<rparr>"
  let ?e = "\<lparr>PCRIndex = 0, EventType = EventTypeSeparator,
             Digests = [AlgorithmSha1 \<mapsto> [1, 0, 0, 0]],
             Data = SeparatorEventData SeparatorEventTypeError [1, 0, 0, 0]\<rparr>"
  have h: "EventType ?e = EventTypeSeparator" "set [AlgorithmSha1] = dom (Digests ?e)"
    "dom (Digests ?e) \<subseteq> {AlgorithmSha1, AlgorithmSha256, AlgorithmSha384, AlgorithmSha512}"
    by simp_all
  have p: "PCRIndex ?e \<le> 7" by simp
  have d: "Data ?e = SeparatorEventData SeparatorEventTypeError [1, 0, 0, 0] \<and>
           [1, 0, 0, 0] = (if SeparatorEventTypeError = SeparatorEventTypeError
                then (case LittleEndian of LittleEndian \<Rightarrow> [1, 0, 0, 0] | BigEndian \<Rightarrow> [0, 0, 0, 1])
                else [1, 0, 0, 0 :: byte])"
    by simp
  have m: "\<forall>alg dg. Digests ?e alg = Some dg \<longrightarrow> hash ?H [1, 0, 0, 0] alg = Return dg"
    by (simp add: hash_def)
  from checkEvent_Separator [OF h, of LittleEndian ?H Format2] p d m
  show ?thesis by blast
qed

theorem checkEvent_Separator_counterexample:
  "hash \<lparr>sha1_Sum = (\<lambda>d. d), sha256_Sum256 = (\<lambda>d. d), sha512_Sum384 = (\<lambda>d. d),
         sha512_Sum512 = (\<lambda>d. d)\<rparr> [1, 0, 0, 0] AlgorithmSha1 = Return [1, 0, 0, 0] \<and>
   checkEvent BigEndian
     \<lparr>sha1_Sum = (\<lambda>d. d), sha256_Sum256 = (\<lambda>d. d), sha512_Sum384 = (\<lambda>d. d),
      sha512_Sum512 = (\<lambda>d. d)\<rparr> [AlgorithmSha1]
     \<lparr>PCRIndex = 0, EventType = EventTypeSeparator, Digests = [AlgorithmSha1 \<mapsto> [1, 0, 0, 0]],
      Data = SeparatorEventData SeparatorEventTypeError [1, 0, 0, 0]\<rparr> Format2 =
     Return (Some (UnexpectedDigestValueError EventTypeSeparator AlgorithmSha1 [1, 0, 0, 0]))"
  by (simp add: checkEvent_def EventType_defs hash_def nativeEndian_PutUint32_def store_def
      le_bytes_4)

text \<open>
  C9. \<^verbatim>\<open>checkEvent\<close> on an \<^verbatim>\<open>EVENT_TAG\<close> event returns the structural error
  \<^verbatim>\<open>UnexpectedEventTypeError\<close> exactly when the PCR index exceeds 4, or the format is the
  crypto-agile one and the PCR index is below 4; otherwise it returns \<^verbatim>\<open>nil\<close>. So PCR 4
  passes under both formats and PCR 0 to 3 pass under the legacy format only.
\<close>

theorem checkEvent_EventTag:
  "EventType e = EventTypeEventTag \<Longrightarrow>
   checkEvent host H ks e f =
     (if PCRIndex e > 4 \<or> (f = Format2 \<and> PCRIndex e < 4)
      then Return (Some (UnexpectedEventTypeError EventTypeEventTag (PCRIndex e)))
      else Return None)"
  by (simp add: checkEvent_def EventType_defs)

theorem checkEvent_EventTag_witness:
  "EventType \<lparr>PCRIndex = 3, EventType = EventTypeEventTag, Digests = Map.empty,
              Data = OtherEventData []\<rparr> = EventTypeEventTag \<and>
   checkEvent LittleEndian
     \<lparr>sha1_Sum = (\<lambda>d. d), sha256_Sum256 = (\<lambda>d. d), sha512_Sum384 = (\<lambda>d. d),
      sha512_Sum512 = (\<lambda>d. d)\<rparr> []
     \<lparr>PCRIndex = 3, EventType = EventTypeEventTag, Digests = Map.empty,
      Data = OtherEventData []\<rparr> Format2 =
     Return (Some (UnexpectedEventTypeError EventTypeEventTag 3)) \<and>
   checkEvent LittleEndian
     \<lparr>sha1_Sum = (\<lambda>d. d), sha256_Sum256 = (\<lambda>d. d), sha512_Sum384 = (\<lambda>d. d),
      sha512_Sum512 = (\<lambda>d. d)\<rparr> []
     \<lparr>PCRIndex = 3, EventType = EventTypeEventTag, Digests = Map.empty,
      Data = OtherEventData []\<rparr> Format1_2 = Return None"
  using checkEvent_EventTag
          [of "\<lparr>PCRIndex = 3, EventType = EventTypeEventTag, Digests = Map.empty,
                Data = OtherEventData []\<rparr>" LittleEndian
              "\<lparr>sha1_Sum = (\<lambda>d. d), sha256_Sum256 = (\<lambda>d. d), sha512_Sum384 = (\<lambda>d. d),
                sha512_Sum512 = (\<lambda>d. d)\<rparr>" "[]"]
  by simp

end
